theory Spec2Isabelle
  imports Main "HOL-Library.Word"
begin

unbundle bit_operations_syntax

section \<open>JavaScript values\<close>

text \<open>
  The handler of \<^verbatim>\<open>server.js\<close> works on whatever \<^verbatim>\<open>express.json()\<close> parsed from
  the request body and on whatever the completion client returned. Both are plain
  JSON-shaped JavaScript values, so the embedding has one datatype of values.

  A JavaScript string is a sequence of UTF-16 code units; \<^verbatim>\<open>slice\<close>, \<^verbatim>\<open>length\<close> and
  \<^verbatim>\<open>JSON.stringify\<close> work on code units. A number is an IEEE-754 double, kept as its
  64-bit pattern. An object is the list of its own enumerable properties in enumeration
  order; an array is the list of its elements.
\<close>

type_synonym jsstring = "16 word list"

definition js :: "string \<Rightarrow> jsstring" where
  "js s = map (\<lambda>c. word_of_nat (of_char c)) s"

datatype jsval =
    JUndefined
  | JNull
  | JBool bool
  | JNum "64 word"
  | JStr jsstring
  | JArr "jsval list"
  | JObj "(jsstring \<times> jsval) list"

datatype exn = TypeError | Rejected jsval

definition then_exn :: "exn + 'a \<Rightarrow> ('a \<Rightarrow> exn + 'b) \<Rightarrow> exn + 'b" where
  "then_exn r f = (case r of Inl e \<Rightarrow> Inl e | Inr x \<Rightarrow> f x)"

subsection \<open>Numbers\<close>

definition exponent_bits :: "64 word \<Rightarrow> 64 word" where
  "exponent_bits x = drop_bit 52 x AND 0x7FF"

definition fraction_bits :: "64 word \<Rightarrow> 64 word" where
  "fraction_bits x = x AND 0xFFFFFFFFFFFFF"

definition is_nan :: "64 word \<Rightarrow> bool" where
  "is_nan x \<longleftrightarrow> exponent_bits x = 0x7FF \<and> fraction_bits x \<noteq> 0"

definition is_infinite :: "64 word \<Rightarrow> bool" where
  "is_infinite x \<longleftrightarrow> exponent_bits x = 0x7FF \<and> fraction_bits x = 0"

definition is_zero :: "64 word \<Rightarrow> bool" where
  "is_zero x \<longleftrightarrow> x AND 0x7FFFFFFFFFFFFFFF = 0"

definition is_negative :: "64 word \<Rightarrow> bool" where
  "is_negative x \<longleftrightarrow> x AND 0x8000000000000000 \<noteq> 0"

definition Infinity :: "64 word" where
  "Infinity = 0x7FF0000000000000"

definition NegInfinity :: "64 word" where
  "NegInfinity = 0xFFF0000000000000"

text \<open>
  \<^verbatim>\<open>Number::toString\<close>. The decimal digits of a finite, positive, non-zero double are
  produced by the engine's shortest-round-trip printer; that printer is the parameter
  \<open>digits\<close> of everything below that may print a number.
\<close>

definition number_to_string :: "(64 word \<Rightarrow> jsstring) \<Rightarrow> 64 word \<Rightarrow> jsstring" where
  "number_to_string digits x =
     (if is_nan x then js ''NaN''
      else if is_zero x then js ''0''
      else (if is_negative x then js ''-'' else []) @
           (if is_infinite x then js ''Infinity''
            else digits (x AND 0x7FFFFFFFFFFFFFFF)))"

subsection \<open>Truthiness, \<^verbatim>\<open>typeof\<close>, property reads\<close>

fun truthy :: "jsval \<Rightarrow> bool" where
  "truthy JUndefined = False"
| "truthy JNull = False"
| "truthy (JBool b) = b"
| "truthy (JNum x) = (\<not> is_zero x \<and> \<not> is_nan x)"
| "truthy (JStr s) = (s \<noteq> [])"
| "truthy (JArr xs) = True"
| "truthy (JObj kvs) = True"

text \<open>\<^verbatim>\<open>a || b\<close>\<close>

definition or_else :: "jsval \<Rightarrow> jsval \<Rightarrow> jsval" where
  "or_else a b = (if truthy a then a else b)"

fun is_string :: "jsval \<Rightarrow> bool" where
  "is_string (JStr s) = True"
| "is_string v = False"

fun nullish :: "jsval \<Rightarrow> bool" where
  "nullish JUndefined = True"
| "nullish JNull = True"
| "nullish v = False"

text \<open>
  \<^verbatim>\<open>v.name\<close> for the property names the handler reads (\<^verbatim>\<open>sql\<close>, \<^verbatim>\<open>challengeId\<close>,
  \<^verbatim>\<open>title\<close>, \<^verbatim>\<open>description\<close>, \<^verbatim>\<open>gradeStatus\<close>, \<^verbatim>\<open>choices\<close>, \<^verbatim>\<open>message\<close>,
  \<^verbatim>\<open>content\<close>). None of them is an array index or a member of a built-in prototype,
  so only an object's own properties can answer; reading from \<^verbatim>\<open>undefined\<close> or
  \<^verbatim>\<open>null\<close> throws.
\<close>

fun get_named :: "jsval \<Rightarrow> jsstring \<Rightarrow> exn + jsval" where
  "get_named JUndefined name = Inl TypeError"
| "get_named JNull name = Inl TypeError"
| "get_named (JObj kvs) name =
     Inr (case map_of kvs name of None \<Rightarrow> JUndefined | Some v \<Rightarrow> v)"
| "get_named v name = Inr JUndefined"

text \<open>\<^verbatim>\<open>v[0]\<close> on a value that is neither \<^verbatim>\<open>undefined\<close> nor \<^verbatim>\<open>null\<close>.\<close>

fun get_first :: "jsval \<Rightarrow> jsval" where
  "get_first (JArr xs) = (case xs of [] \<Rightarrow> JUndefined | x # _ \<Rightarrow> x)"
| "get_first (JStr s) = (case s of [] \<Rightarrow> JUndefined | c # _ \<Rightarrow> JStr [c])"
| "get_first (JObj kvs) = (case map_of kvs (js ''0'') of None \<Rightarrow> JUndefined | Some v \<Rightarrow> v)"
| "get_first v = JUndefined"

text \<open>\<^verbatim>\<open>v?.name\<close> and \<^verbatim>\<open>v?.[0]\<close>: \<^verbatim>\<open>undefined\<close> when \<open>v\<close> is nullish.\<close>

definition opt_named :: "jsval \<Rightarrow> jsstring \<Rightarrow> exn + jsval" where
  "opt_named v name = (if nullish v then Inr JUndefined else get_named v name)"

definition opt_first :: "jsval \<Rightarrow> jsval" where
  "opt_first v = (if nullish v then JUndefined else get_first v)"

subsection \<open>\<^verbatim>\<open>ToString\<close>, as a template literal applies it\<close>

text \<open>
  An object converts through \<^verbatim>\<open>Object.prototype.toString\<close> to \<^verbatim>\<open>[object Object]\<close>,
  unless it has an own property \<^verbatim>\<open>toString\<close>: a parsed one is never callable, and
  the conversion throws. An array converts through \<^verbatim>\<open>join\<close>, where \<^verbatim>\<open>undefined\<close>
  and \<^verbatim>\<open>null\<close> elements print as nothing.
\<close>

fun to_string :: "(64 word \<Rightarrow> jsstring) \<Rightarrow> jsval \<Rightarrow> exn + jsstring"
  and join_elems :: "(64 word \<Rightarrow> jsstring) \<Rightarrow> jsval list \<Rightarrow> exn + jsstring"
where
  "to_string digits JUndefined = Inr (js ''undefined'')"
| "to_string digits JNull = Inr (js ''null'')"
| "to_string digits (JBool b) = Inr (if b then js ''true'' else js ''false'')"
| "to_string digits (JNum x) = Inr (number_to_string digits x)"
| "to_string digits (JStr s) = Inr s"
| "to_string digits (JArr xs) = join_elems digits xs"
| "to_string digits (JObj kvs) =
     (if map_of kvs (js ''toString'') = None then Inr (js ''[object Object]'')
      else Inl TypeError)"
| "join_elems digits [] = Inr []"
| "join_elems digits (x # xs) =
     then_exn (if nullish x then Inr [] else to_string digits x) (\<lambda>s.
       if xs = [] then Inr s
       else then_exn (join_elems digits xs) (\<lambda>t. Inr (s @ js '','' @ t)))"

text \<open>
  \<^verbatim>\<open>v.slice(0, 500)\<close>: the first 500 code units of a string, the first 500 elements
  of an array; every other value has no callable \<^verbatim>\<open>slice\<close>.
\<close>

fun slice_500 :: "jsval \<Rightarrow> exn + jsval" where
  "slice_500 (JStr s) = Inr (JStr (take 500 s))"
| "slice_500 (JArr xs) = Inr (JArr (take 500 xs))"
| "slice_500 v = Inl TypeError"

section \<open>\<^verbatim>\<open>JSON.stringify\<close>\<close>

definition is_lead :: "16 word \<Rightarrow> bool" where
  "is_lead c \<longleftrightarrow> 0xD800 \<le> c \<and> c \<le> 0xDBFF"

definition is_trail :: "16 word \<Rightarrow> bool" where
  "is_trail c \<longleftrightarrow> 0xDC00 \<le> c \<and> c \<le> 0xDFFF"

text \<open>\<^verbatim>\<open>UnicodeEscape\<close>: \<^verbatim>\<open>\u\<close> and the code unit as four lowercase hexadecimal digits.\<close>

definition hex_digit :: "nat \<Rightarrow> 16 word" where
  "hex_digit n = (if n < 10 then word_of_nat (48 + n) else word_of_nat (87 + n))"

definition unicode_escape :: "16 word \<Rightarrow> jsstring" where
  "unicode_escape c =
     (let n = unat c in
      [0x5C, 0x75, hex_digit (n div 4096 mod 16), hex_digit (n div 256 mod 16),
       hex_digit (n div 16 mod 16), hex_digit (n mod 16)])"

text \<open>One code point of \<^verbatim>\<open>QuoteJSONString\<close> that is a single code unit.\<close>

definition quote_unit :: "16 word \<Rightarrow> jsstring" where
  "quote_unit c =
     (if c = 0x08 then [0x5C, 0x62]
      else if c = 0x09 then [0x5C, 0x74]
      else if c = 0x0A then [0x5C, 0x6E]
      else if c = 0x0C then [0x5C, 0x66]
      else if c = 0x0D then [0x5C, 0x72]
      else if c = 0x22 then [0x5C, 0x22]
      else if c = 0x5C then [0x5C, 0x5C]
      else if c < 0x20 \<or> is_lead c \<or> is_trail c then unicode_escape c
      else [c])"

text \<open>
  The string is read as code points: a lead surrogate followed by a trail surrogate is
  one code point and is copied; any other surrogate is alone and is escaped.
\<close>

fun quote_units :: "jsstring \<Rightarrow> jsstring" where
  "quote_units [] = []"
| "quote_units [c] = quote_unit c"
| "quote_units (c # d # cs) =
     (if is_lead c \<and> is_trail d then c # d # quote_units cs
      else quote_unit c @ quote_units (d # cs))"

definition json_quote :: "jsstring \<Rightarrow> jsstring" where
  "json_quote s = 0x22 # quote_units s @ [0x22]"

fun join_with :: "jsstring \<Rightarrow> jsstring list \<Rightarrow> jsstring" where
  "join_with sep [] = []"
| "join_with sep [s] = s"
| "join_with sep (s # t # ts) = s @ sep @ join_with sep (t # ts)"

text \<open>
  \<^verbatim>\<open>SerializeJSONProperty\<close>, without replacer and gap. \<open>None\<close> is the result
  \<^verbatim>\<open>undefined\<close>: such a property is left out of an object and printed \<^verbatim>\<open>null\<close> in
  an array. A number that is not finite prints \<^verbatim>\<open>null\<close>.
\<close>

fun json_property :: "(64 word \<Rightarrow> jsstring) \<Rightarrow> jsval \<Rightarrow> jsstring option"
  and json_elements :: "(64 word \<Rightarrow> jsstring) \<Rightarrow> jsval list \<Rightarrow> jsstring list"
  and json_members :: "(64 word \<Rightarrow> jsstring) \<Rightarrow> (jsstring \<times> jsval) list \<Rightarrow> jsstring list"
where
  "json_property digits JUndefined = None"
| "json_property digits JNull = Some (js ''null'')"
| "json_property digits (JBool b) = Some (if b then js ''true'' else js ''false'')"
| "json_property digits (JNum x) =
     Some (if is_nan x \<or> is_infinite x then js ''null'' else number_to_string digits x)"
| "json_property digits (JStr s) = Some (json_quote s)"
| "json_property digits (JArr xs) =
     Some (js ''['' @ join_with (js '','') (json_elements digits xs) @ js '']'')"
| "json_property digits (JObj kvs) =
     Some (js ''{'' @ join_with (js '','') (json_members digits kvs) @ js ''}'')"
| "json_elements digits [] = []"
| "json_elements digits (x # xs) =
     (case json_property digits x of None \<Rightarrow> js ''null'' | Some s \<Rightarrow> s)
       # json_elements digits xs"
| "json_members digits [] = []"
| "json_members digits ((k, v) # kvs) =
     (case json_property digits v of
        None \<Rightarrow> json_members digits kvs
      | Some s \<Rightarrow> (json_quote k @ js '':'' @ s) # json_members digits kvs)"

text \<open>\<^verbatim>\<open>JSON.stringify\<close> of an object literal with the given properties.\<close>

definition stringify_object :: "(64 word \<Rightarrow> jsstring) \<Rightarrow> (jsstring \<times> jsval) list \<Rightarrow> jsstring" where
  "stringify_object digits kvs = js ''{'' @ join_with (js '','') (json_members digits kvs) @ js ''}''"

section \<open>The cache\<close>

text \<open>
  \<^verbatim>\<open>const cache = new Map()\<close>: the entries in insertion order. \<^verbatim>\<open>Map.prototype.set\<close>
  overwrites the value of a key that is present, in place, and appends a new key.
\<close>

type_synonym cache = "(jsstring \<times> jsval) list"

definition cache_new :: cache where
  "cache_new = []"

fun cache_set :: "jsstring \<Rightarrow> jsval \<Rightarrow> cache \<Rightarrow> cache" where
  "cache_set k v [] = [(k, v)]"
| "cache_set k v ((k', v') # m) = (if k' = k then (k, v) # m else (k', v') # cache_set k v m)"

definition cache_has :: "jsstring \<Rightarrow> cache \<Rightarrow> bool" where
  "cache_has k m \<longleftrightarrow> map_of m k \<noteq> None"

definition cache_get :: "jsstring \<Rightarrow> cache \<Rightarrow> jsval" where
  "cache_get k m = (case map_of m k of None \<Rightarrow> JUndefined | Some v \<Rightarrow> v)"

definition cache_size :: "cache \<Rightarrow> nat" where
  "cache_size m = length m"

definition cache_clear :: "cache \<Rightarrow> cache" where
  "cache_clear m = []"

text \<open>
  The write of the handler, lines 85 and 86:
  \<^verbatim>\<open>cache.set(key, explanation); if (cache.size > 1000) cache.clear();\<close>
\<close>

definition cache_put :: "jsstring \<Rightarrow> jsval \<Rightarrow> cache \<Rightarrow> cache" where
  "cache_put k v m =
     (let m' = cache_set k v m in if cache_size m' > 1000 then cache_clear m' else m')"

section \<open>The handler of \<^verbatim>\<open>POST /api/explain-sql\<close>\<close>

record response =
  status :: nat
  body :: jsval

text \<open>\<^verbatim>\<open>res.json(v)\<close> and \<^verbatim>\<open>res.status(n).json(v)\<close>\<close>

definition res_json :: "jsval \<Rightarrow> response" where
  "res_json v = \<lparr>status = 200, body = v\<rparr>"

definition res_status_json :: "nat \<Rightarrow> jsval \<Rightarrow> response" where
  "res_status_json n v = \<lparr>status = n, body = v\<rparr>"

definition validation_error :: response where
  "validation_error =
     res_status_json 400 (JObj [(js ''error'', JStr (js ''Missing 'sql' in request body.''))])"

definition failure_error :: response where
  "failure_error =
     res_status_json 500 (JObj [(js ''error'', JStr (js ''Failed to explain SQL.''))])"

text \<open>
  \<^verbatim>\<open>const { sql, challengeId, title, description, gradeStatus } = req.body || {}\<close>
\<close>

record fields =
  sql :: jsval
  challengeId :: jsval
  title :: jsval
  description :: jsval
  gradeStatus :: jsval

definition destructure :: "jsval \<Rightarrow> exn + fields" where
  "destructure req_body =
     (let src = or_else req_body (JObj []) in
      then_exn (get_named src (js ''sql'')) (\<lambda>a.
      then_exn (get_named src (js ''challengeId'')) (\<lambda>b.
      then_exn (get_named src (js ''title'')) (\<lambda>c.
      then_exn (get_named src (js ''description'')) (\<lambda>d.
      then_exn (get_named src (js ''gradeStatus'')) (\<lambda>e.
        Inr \<lparr>sql = a, challengeId = b, title = c, description = d, gradeStatus = e\<rparr>))))))"

text \<open>\<^verbatim>\<open>!sql || typeof sql !== "string"\<close>\<close>

definition invalid_sql :: "jsval \<Rightarrow> bool" where
  "invalid_sql v \<longleftrightarrow> \<not> truthy v \<or> \<not> is_string v"

text \<open>\<^verbatim>\<open>const key = JSON.stringify({ sql, challengeId, title, gradeStatus })\<close>\<close>

definition key :: "(64 word \<Rightarrow> jsstring) \<Rightarrow> fields \<Rightarrow> jsstring" where
  "key digits f =
     stringify_object digits
       [(js ''sql'', sql f), (js ''challengeId'', challengeId f),
        (js ''title'', title f), (js ''gradeStatus'', gradeStatus f)]"

definition systemPrompt :: jsstring where
  "systemPrompt = js (
     ''\<newline>You are an expert SQL instructor and analytics lead.'' @
     ''\<newline>Explain the user's SQL in clear, non-technical language for someone who cares about business outcomes.'' @
     ''\<newline>- First, summarize what the query is doing.'' @
     ''\<newline>- Then explain how it relates to the question or scenario.'' @
     ''\<newline>- If there is any obvious bug or inefficiency, mention it briefly.'' @
     ''\<newline>Keep the answer under 200-250 words.\<newline>'')"

text \<open>
  The description as the prompt shows it:
  \<^verbatim>\<open>${(description || "").slice(0, 500)}\<close>
\<close>

definition description_text :: "(64 word \<Rightarrow> jsstring) \<Rightarrow> jsval \<Rightarrow> exn + jsstring" where
  "description_text digits d =
     then_exn (slice_500 (or_else d (JStr []))) (to_string digits)"

text \<open>The fixed text of the \<^verbatim>\<open>userPrompt\<close> template around its five substitutions.\<close>

definition prompt_template ::
  "jsstring \<Rightarrow> jsstring \<Rightarrow> jsstring \<Rightarrow> jsstring \<Rightarrow> jsstring \<Rightarrow> jsstring" where
  "prompt_template s i t d g =
     js ''\<newline>SQL query:\<newline>'' @ s @
     js ''\<newline>\<newline>Challenge context:\<newline>- ID: '' @ i @
     js ''\<newline>- Title: '' @ t @
     js ''\<newline>- Description (may be truncated):\<newline>'' @ d @
     js ''\<newline>\<newline>Grading status (if any): '' @ g @
     js (''\<newline>\<newline>Please explain this query step by step, as if mentoring an analyst '' @
         ''who knows basic SQL but wants to understand the logic and business meaning.\<newline>'')"

definition userPrompt :: "(64 word \<Rightarrow> jsstring) \<Rightarrow> fields \<Rightarrow> exn + jsstring" where
  "userPrompt digits f =
     then_exn (to_string digits (sql f)) (\<lambda>s.
     then_exn (to_string digits (or_else (challengeId f) (JStr (js ''unknown'')))) (\<lambda>i.
     then_exn (to_string digits (or_else (title f) (JStr (js ''N/A'')))) (\<lambda>t.
     then_exn (description_text digits (description f)) (\<lambda>d.
     then_exn (to_string digits (or_else (gradeStatus f) (JStr (js ''N/A'')))) (\<lambda>g.
       Inr (prompt_template s i t d g))))))"

text \<open>
  The argument of \<^verbatim>\<open>client.chat.completions.create\<close>. The model name
  (\<^verbatim>\<open>gpt-4o-mini\<close>), the temperature (0.3) and \<^verbatim>\<open>max_tokens\<close> (400) are the same in
  every call; the two message contents are what varies.
\<close>

record chat_request =
  system_content :: jsstring
  user_content :: jsstring

text \<open>
  \<^verbatim>\<open>completion.choices?.[0]?.message?.content || "I couldn't generate an explanation."\<close>
\<close>

definition placeholder :: jsstring where
  "placeholder = js ''I couldn't generate an explanation.''"

definition message_content :: "jsval \<Rightarrow> exn + jsval" where
  "message_content completion =
     then_exn (get_named completion (js ''choices'')) (\<lambda>choices.
     then_exn (opt_named (opt_first choices) (js ''message'')) (\<lambda>message.
       opt_named message (js ''content'')))"

definition explanation :: "jsval \<Rightarrow> exn + jsval" where
  "explanation completion =
     then_exn (message_content completion) (\<lambda>content.
       Inr (or_else content (JStr placeholder)))"

text \<open>
  The handler runs up to the \<^verbatim>\<open>await\<close>, and is resumed with the outcome of the call
  (\<open>Inl\<close> a rejection, \<open>Inr\<close> the completion) on the cache as it is then. Every
  exception is caught by the handler's \<^verbatim>\<open>catch\<close>, which logs it and answers 500.
\<close>

datatype suspended =
    Respond response "exn list"
  | Await jsstring chat_request

definition begin_request :: "(64 word \<Rightarrow> jsstring) \<Rightarrow> cache \<Rightarrow> jsval \<Rightarrow> suspended" where
  "begin_request digits m req_body =
     (case destructure req_body of
        Inl e \<Rightarrow> Respond failure_error [e]
      | Inr f \<Rightarrow>
          if invalid_sql (sql f) then Respond validation_error []
          else
            let k = key digits f in
            if cache_has k m
            then Respond (res_json (JObj [(js ''explanation'', cache_get k m),
                                          (js ''cached'', JBool True)])) []
            else
              (case userPrompt digits f of
                 Inl e \<Rightarrow> Respond failure_error [e]
               | Inr u \<Rightarrow> Await k \<lparr>system_content = systemPrompt, user_content = u\<rparr>))"

record outcome =
  reply :: response
  cache_after :: cache
  upstream_calls :: "chat_request list"
  logged :: "exn list"

definition resume_request :: "jsstring \<Rightarrow> chat_request \<Rightarrow> jsval + jsval \<Rightarrow> cache \<Rightarrow> outcome" where
  "resume_request k call result m =
     (case result of
        Inl reason \<Rightarrow>
          \<lparr>reply = failure_error, cache_after = m, upstream_calls = [call],
           logged = [Rejected reason]\<rparr>
      | Inr completion \<Rightarrow>
          (case explanation completion of
             Inl e \<Rightarrow>
               \<lparr>reply = failure_error, cache_after = m, upstream_calls = [call], logged = [e]\<rparr>
           | Inr ex \<Rightarrow>
               \<lparr>reply = res_json (JObj [(js ''explanation'', ex)]),
                cache_after = cache_put k ex m, upstream_calls = [call], logged = []\<rparr>))"

text \<open>One request handled with no other request in between.\<close>

definition handle_request ::
  "(64 word \<Rightarrow> jsstring) \<Rightarrow> (chat_request \<Rightarrow> jsval + jsval) \<Rightarrow> cache \<Rightarrow> jsval \<Rightarrow> outcome" where
  "handle_request digits upstream m req_body =
     (case begin_request digits m req_body of
        Respond r l \<Rightarrow> \<lparr>reply = r, cache_after = m, upstream_calls = [], logged = l\<rparr>
      | Await k call \<Rightarrow> resume_request k call (upstream call) m)"

text \<open>A sequence of cache writes, one after the other.\<close>

definition put_all :: "(jsstring \<times> jsval) list \<Rightarrow> cache \<Rightarrow> cache" where
  "put_all kvs m = foldl (\<lambda>m' kv. cache_put (fst kv) (snd kv) m') m kvs"

section \<open>Reading a quoted string back\<close>

text \<open>
  The inverse of \<^verbatim>\<open>QuoteJSONString\<close> after the opening quote: the string up to the
  closing quote, and what follows it. It shows that quoting loses nothing.
\<close>

definition unhex_digit :: "16 word \<Rightarrow> nat" where
  "unhex_digit h = (if unat h < 58 then unat h - 48 else unat h - 87)"

definition unescape :: "16 word \<Rightarrow> 16 word" where
  "unescape e =
     (if e = 0x62 then 0x08 else if e = 0x74 then 0x09 else if e = 0x6E then 0x0A
      else if e = 0x66 then 0x0C else if e = 0x72 then 0x0D else e)"

definition cons_fst :: "16 word \<Rightarrow> jsstring \<times> jsstring \<Rightarrow> jsstring \<times> jsstring" where
  "cons_fst c p = (c # fst p, snd p)"

fun unquote_units :: "jsstring \<Rightarrow> jsstring \<times> jsstring" where
  "unquote_units [] = ([], [])"
| "unquote_units (c # cs) =
     (if c = 0x22 then ([], cs)
      else if c \<noteq> 0x5C then cons_fst c (unquote_units cs)
      else (case cs of
              [] \<Rightarrow> ([], [])
            | e # es \<Rightarrow>
                if e \<noteq> 0x75 then cons_fst (unescape e) (unquote_units es)
                else (case es of
                        h1 # h2 # h3 # h4 # es' \<Rightarrow>
                          cons_fst (word_of_nat (unhex_digit h1 * 4096 + unhex_digit h2 * 256 +
                                    unhex_digit h3 * 16 + unhex_digit h4))
                                   (unquote_units es')
                      | _ \<Rightarrow> ([], []))))"

section \<open>Vocabulary of the properties\<close>

fun is_object :: "jsval \<Rightarrow> bool" where
  "is_object (JObj kvs) = True"
| "is_object v = False"

text \<open>
  The numbers that \<open>digits\<close> is asked to print: finite, positive, not zero.
\<close>

definition finite_positive :: "64 word \<Rightarrow> bool" where
  "finite_positive x \<longleftrightarrow>
     \<not> is_nan x \<and> \<not> is_infinite x \<and> \<not> is_zero x \<and> \<not> is_negative x"

text \<open>
  The code units of a number's text: the digits, the point, \<^verbatim>\<open>e\<close>, \<^verbatim>\<open>+\<close> and
  \<^verbatim>\<open>-\<close>.
\<close>

definition digit_unit :: "16 word \<Rightarrow> bool" where
  "digit_unit c \<longleftrightarrow> 0x30 \<le> c \<and> c \<le> 0x39"

definition number_unit :: "16 word \<Rightarrow> bool" where
  "number_unit c \<longleftrightarrow> digit_unit c \<or> c = 0x2E \<or> c = 0x65 \<or> c = 0x2B \<or> c = 0x2D"

text \<open>
  What \<^verbatim>\<open>Number::toString\<close> guarantees of the digits it prints for a finite positive
  number: the text starts with a digit, is made of digits, point, \<^verbatim>\<open>e\<close> and sign, is
  not the text \<^verbatim>\<open>0\<close> of zero, and is the text of no other such number (the number can
  be read back from it).
\<close>

definition readable_digits :: "(64 word \<Rightarrow> jsstring) \<Rightarrow> bool" where
  "readable_digits digits \<longleftrightarrow>
     (\<forall>x y. finite_positive x \<and> finite_positive y \<and> digits x = digits y \<longrightarrow> x = y) \<and>
     (\<forall>x. finite_positive x \<longrightarrow>
        digits x \<noteq> [] \<and> digit_unit (hd (digits x)) \<and> list_all number_unit (digits x) \<and>
        digits x \<noteq> js ''0'')"

text \<open>A text that cannot continue a number: empty, or starting with another code unit.\<close>

definition delimited :: "jsstring \<Rightarrow> bool" where
  "delimited r \<longleftrightarrow> r = [] \<or> \<not> number_unit (hd r)"

text \<open>
  A value as \<^verbatim>\<open>JSON.parse\<close> gives it, whose numbers are all finite and none of them the
  negative zero: no \<^verbatim>\<open>undefined\<close> anywhere inside.
\<close>

fun printable :: "jsval \<Rightarrow> bool" where
  "printable JUndefined = False"
| "printable JNull = True"
| "printable (JBool b) = True"
| "printable (JNum x) = (\<not> is_nan x \<and> \<not> is_infinite x \<and> \<not> (is_zero x \<and> is_negative x))"
| "printable (JStr s) = True"
| "printable (JArr xs) = list_all printable xs"
| "printable (JObj kvs) = list_all (\<lambda>kv. printable (snd kv)) kvs"

definition absent_or_printable :: "jsval \<Rightarrow> bool" where
  "absent_or_printable v \<longleftrightarrow> v = JUndefined \<or> printable v"

text \<open>
  What \<^verbatim>\<open>JSON.stringify\<close> prints for such a value, written without the case of an
  \<^verbatim>\<open>undefined\<close> result, and the code unit that text starts with when the value is
  not a number.
\<close>

fun printed :: "(64 word \<Rightarrow> jsstring) \<Rightarrow> jsval \<Rightarrow> jsstring" where
  "printed digits JNull = js ''null''"
| "printed digits (JBool b) = (if b then js ''true'' else js ''false'')"
| "printed digits (JNum x) = number_to_string digits x"
| "printed digits (JStr s) = json_quote s"
| "printed digits (JArr xs) =
     js ''['' @ join_with (js '','') (map (printed digits) xs) @ js '']''"
| "printed digits (JObj kvs) =
     js ''{'' @
     join_with (js '','')
       (map (\<lambda>kv. json_quote (fst kv) @ js '':'' @ printed digits (snd kv)) kvs) @
     js ''}''"
| "printed digits JUndefined = []"

fun is_number :: "jsval \<Rightarrow> bool" where
  "is_number (JNum x) = True"
| "is_number v = False"

fun first_unit :: "jsval \<Rightarrow> 16 word" where
  "first_unit JNull = 0x6E"
| "first_unit (JBool b) = (if b then 0x74 else 0x66)"
| "first_unit (JStr s) = 0x22"
| "first_unit (JArr xs) = 0x5B"
| "first_unit (JObj kvs) = 0x7B"
| "first_unit v = 0"

text \<open>The properties of the object literal that \<^verbatim>\<open>JSON.stringify\<close> keeps.\<close>

definition present :: "(jsstring \<times> jsval) list \<Rightarrow> (jsstring \<times> jsval) list" where
  "present kvs = filter (\<lambda>kv. snd kv \<noteq> JUndefined) kvs"

definition printable_fields :: "fields \<Rightarrow> bool" where
  "printable_fields f \<longleftrightarrow>
     absent_or_printable (sql f) \<and> absent_or_printable (challengeId f) \<and>
     absent_or_printable (title f) \<and> absent_or_printable (gradeStatus f)"

subsection \<open>Concrete requests, caches and services\<close>

text \<open>A digit printer for inputs that hold no finite number other than zero.\<close>

definition no_digits :: "64 word \<Rightarrow> jsstring" where
  "no_digits x = []"

definition select_one :: jsval where
  "select_one =
     JObj [(js ''sql'', JStr (js ''SELECT 1'')), (js ''challengeId'', JStr (js ''c1'')),
           (js ''title'', JStr (js ''t'')), (js ''gradeStatus'', JStr (js ''passed''))]"

definition select_one_described :: jsval where
  "select_one_described =
     JObj [(js ''sql'', JStr (js ''SELECT 1'')), (js ''challengeId'', JStr (js ''c1'')),
           (js ''title'', JStr (js ''t'')), (js ''description'', JStr (js ''Find one'')),
           (js ''gradeStatus'', JStr (js ''passed''))]"

definition select_one_fields :: fields where
  "select_one_fields =
     \<lparr>sql = JStr (js ''SELECT 1''), challengeId = JStr (js ''c1''), title = JStr (js ''t''),
      description = JUndefined, gradeStatus = JStr (js ''passed'')\<rparr>"

definition select_one_described_fields :: fields where
  "select_one_described_fields =
     \<lparr>sql = JStr (js ''SELECT 1''), challengeId = JStr (js ''c1''), title = JStr (js ''t''),
      description = JStr (js ''Find one''), gradeStatus = JStr (js ''passed'')\<rparr>"

definition empty_sql_fields :: fields where
  "empty_sql_fields =
     \<lparr>sql = JStr [], challengeId = JUndefined, title = JUndefined,
      description = JUndefined, gradeStatus = JUndefined\<rparr>"

definition select_one_key :: jsstring where
  "select_one_key =
     js (''{'' @ [CHR 0x22] @ ''sql'' @ [CHR 0x22] @ '':'' @ [CHR 0x22] @ ''SELECT 1'' @ [CHR 0x22] @
         '','' @ [CHR 0x22] @ ''challengeId'' @ [CHR 0x22] @ '':'' @ [CHR 0x22] @ ''c1'' @ [CHR 0x22] @
         '','' @ [CHR 0x22] @ ''title'' @ [CHR 0x22] @ '':'' @ [CHR 0x22] @ ''t'' @ [CHR 0x22] @
         '','' @ [CHR 0x22] @ ''gradeStatus'' @ [CHR 0x22] @ '':'' @ [CHR 0x22] @ ''passed'' @ [CHR 0x22] @
         ''}'')"

definition select_one_prompt :: jsstring where
  "select_one_prompt = js (
     ''\<newline>SQL query:\<newline>SELECT 1'' @
     ''\<newline>\<newline>Challenge context:\<newline>- ID: c1\<newline>- Title: t'' @
     ''\<newline>- Description (may be truncated):\<newline>'' @
     ''\<newline>\<newline>Grading status (if any): passed'' @
     ''\<newline>\<newline>Please explain this query step by step, as if mentoring an analyst '' @
     ''who knows basic SQL but wants to understand the logic and business meaning.\<newline>'')"

definition select_one_call :: chat_request where
  "select_one_call = \<lparr>system_content = systemPrompt, user_content = select_one_prompt\<rparr>"

definition select_one_answer :: jsval where
  "select_one_answer = JStr (js ''It returns the number one.'')"

definition empty_sql :: jsval where
  "empty_sql = JObj [(js ''sql'', JStr [])]"

definition infinite_id :: jsval where
  "infinite_id = JObj [(js ''sql'', JStr (js ''SELECT 1'')), (js ''challengeId'', JNum Infinity)]"

definition null_id :: jsval where
  "null_id = JObj [(js ''sql'', JStr (js ''SELECT 1'')), (js ''challengeId'', JNull)]"

definition infinite_id_fields :: fields where
  "infinite_id_fields =
     \<lparr>sql = JStr (js ''SELECT 1''), challengeId = JNum Infinity, title = JUndefined,
      description = JUndefined, gradeStatus = JUndefined\<rparr>"

definition null_id_fields :: fields where
  "null_id_fields =
     \<lparr>sql = JStr (js ''SELECT 1''), challengeId = JNull, title = JUndefined,
      description = JUndefined, gradeStatus = JUndefined\<rparr>"

definition null_id_key :: jsstring where
  "null_id_key = js (''{'' @ [CHR 0x22] @ ''sql'' @ [CHR 0x22] @ '':'' @ [CHR 0x22] @ ''SELECT 1'' @
                     [CHR 0x22] @ '','' @ [CHR 0x22] @ ''challengeId'' @ [CHR 0x22] @ '':null}'')"

text \<open>The doubles 42, 43, zero and negative zero.\<close>

definition forty_two :: "64 word" where
  "forty_two = 0x4045000000000000"

definition forty_three :: "64 word" where
  "forty_three = 0x4045800000000000"

definition negative_zero :: "64 word" where
  "negative_zero = 0x8000000000000000"

definition numbered_fields :: "64 word \<Rightarrow> fields" where
  "numbered_fields x =
     \<lparr>sql = JStr (js ''SELECT 1''), challengeId = JNum x, title = JUndefined,
      description = JUndefined, gradeStatus = JUndefined\<rparr>"

definition forty_two_key :: jsstring where
  "forty_two_key = js (''{'' @ [CHR 0x22] @ ''sql'' @ [CHR 0x22] @ '':'' @ [CHR 0x22] @ ''SELECT 1'' @
                       [CHR 0x22] @ '','' @ [CHR 0x22] @ ''challengeId'' @ [CHR 0x22] @ '':42}'')"

definition zero_id_key :: jsstring where
  "zero_id_key = js (''{'' @ [CHR 0x22] @ ''sql'' @ [CHR 0x22] @ '':'' @ [CHR 0x22] @ ''SELECT 1'' @
                     [CHR 0x22] @ '','' @ [CHR 0x22] @ ''challengeId'' @ [CHR 0x22] @ '':0}'')"

text \<open>
  A digit printer that prints 42 and 43 as \<^verbatim>\<open>Number::toString\<close> does and gives every
  other number a text of its own.
\<close>

definition sample_digits :: "64 word \<Rightarrow> jsstring" where
  "sample_digits x =
     (if x = forty_two then js ''42''
      else if x = forty_three then js ''43''
      else js ''0.'' @ replicate (unat x) 0x31)"

definition long_text :: jsstring where
  "long_text = replicate 501 0x78"

definition array_description :: jsval where
  "array_description =
     JObj [(js ''sql'', JStr (js ''SELECT 1'')), (js ''description'', JArr [JStr long_text])]"

definition long_description :: jsval where
  "long_description =
     JObj [(js ''sql'', JStr (js ''SELECT 1'')), (js ''description'', JStr long_text)]"

definition array_description_fields :: fields where
  "array_description_fields =
     \<lparr>sql = JStr (js ''SELECT 1''), challengeId = JUndefined, title = JUndefined,
      description = JArr [JStr long_text], gradeStatus = JUndefined\<rparr>"

definition long_description_fields :: fields where
  "long_description_fields =
     \<lparr>sql = JStr (js ''SELECT 1''), challengeId = JUndefined, title = JUndefined,
      description = JStr long_text, gradeStatus = JUndefined\<rparr>"

definition bare_key :: jsstring where
  "bare_key = js (''{'' @ [CHR 0x22] @ ''sql'' @ [CHR 0x22] @ '':'' @ [CHR 0x22] @ ''SELECT 1'' @
                  [CHR 0x22] @ ''}'')"

definition failing_service :: "chat_request \<Rightarrow> jsval + jsval" where
  "failing_service call = Inl (JStr (js ''connect ECONNREFUSED''))"

definition silent_service :: "chat_request \<Rightarrow> jsval + jsval" where
  "silent_service call = Inr (JObj [(js ''choices'', JArr [])])"

definition answering_service :: "chat_request \<Rightarrow> jsval + jsval" where
  "answering_service call =
     Inr (JObj [(js ''choices'',
                 JArr [JObj [(js ''message'',
                             JObj [(js ''content'', select_one_answer)])]])])"

text \<open>
  The cache that the requests \<^verbatim>\<open>{ "sql": "a" }\<close>, \<^verbatim>\<open>{ "sql": "aa" }\<close>, ... leave
  behind when each is answered by \<open>answering_service\<close>: \<open>n\<close> entries.
\<close>

definition filler_body :: "nat \<Rightarrow> jsval" where
  "filler_body i = JObj [(js ''sql'', JStr (replicate (Suc i) 0x61))]"

definition filler_key :: "nat \<Rightarrow> jsstring" where
  "filler_key i =
     js (''{'' @ [CHR 0x22] @ ''sql'' @ [CHR 0x22] @ '':'' @ [CHR 0x22]) @
     replicate (Suc i) 0x61 @ js ([CHR 0x22] @ ''}'')"

definition filler :: "nat \<Rightarrow> cache" where
  "filler n = map (\<lambda>i. (filler_key i, select_one_answer)) [0..<n]"

text \<open>A cache with the example request's entry between two others.\<close>

definition mixed_cache :: cache where
  "mixed_cache =
     [(filler_key 0, JStr (js ''An older answer.'')), (select_one_key, select_one_answer),
      (filler_key 1, JStr (js ''Another answer.''))]"

text \<open>Requests handled one after the other; the cache they leave.\<close>

definition serve_all ::
  "(64 word \<Rightarrow> jsstring) \<Rightarrow> (chat_request \<Rightarrow> jsval + jsval) \<Rightarrow> jsval list \<Rightarrow> cache \<Rightarrow> cache" where
  "serve_all digits upstream bodies m =
     foldl (\<lambda>m' b. cache_after (handle_request digits upstream m' b)) m bodies"

section \<open>Basic facts about the handler\<close>

lemma then_exn_Inl [simp]: "then_exn (Inl e) f = Inl e"
  by (simp add: then_exn_def)

lemma then_exn_Inr [simp]: "then_exn (Inr x) f = f x"
  by (simp add: then_exn_def)

lemma destructure_total: "\<exists>f. destructure b = Inr f"
  by (cases b) (simp_all add: destructure_def or_else_def)

lemma destructure_not_object:
  "\<not> is_object b \<Longrightarrow> destructure b =
     Inr \<lparr>sql = JUndefined, challengeId = JUndefined, title = JUndefined,
          description = JUndefined, gradeStatus = JUndefined\<rparr>"
  by (cases b) (simp_all add: destructure_def or_else_def)

lemma destructure_object:
  "destructure (JObj kvs) =
     Inr \<lparr>sql = (case map_of kvs (js ''sql'') of None \<Rightarrow> JUndefined | Some v \<Rightarrow> v),
          challengeId = (case map_of kvs (js ''challengeId'') of None \<Rightarrow> JUndefined | Some v \<Rightarrow> v),
          title = (case map_of kvs (js ''title'') of None \<Rightarrow> JUndefined | Some v \<Rightarrow> v),
          description = (case map_of kvs (js ''description'') of None \<Rightarrow> JUndefined | Some v \<Rightarrow> v),
          gradeStatus = (case map_of kvs (js ''gradeStatus'') of None \<Rightarrow> JUndefined | Some v \<Rightarrow> v)\<rparr>"
  by (simp add: destructure_def or_else_def)

lemma invalid_sql_iff: "invalid_sql v \<longleftrightarrow> \<not> is_string v \<or> v = JStr []"
  by (cases v) (simp_all add: invalid_sql_def)

lemma status_simps [simp]:
  "status validation_error = 400" "status failure_error = 500" "status (res_json v) = 200"
  by (simp_all add: validation_error_def failure_error_def res_json_def res_status_json_def)

lemma handle_invalid:
  "destructure b = Inr f \<Longrightarrow> invalid_sql (sql f) \<Longrightarrow>
   handle_request digits upstream m b =
     \<lparr>reply = validation_error, cache_after = m, upstream_calls = [], logged = []\<rparr>"
  by (simp add: handle_request_def begin_request_def)

lemma status_resume: "status (reply (resume_request k call r m)) \<noteq> 400"
  by (simp add: resume_request_def split: sum.splits)

lemma handle_valid_status:
  "destructure b = Inr f \<Longrightarrow> \<not> invalid_sql (sql f) \<Longrightarrow>
   status (reply (handle_request digits upstream m b)) \<noteq> 400"
  by (simp add: handle_request_def begin_request_def Let_def status_resume split: sum.splits)

lemma begin_hit:
  "destructure b = Inr f \<Longrightarrow> \<not> invalid_sql (sql f) \<Longrightarrow> cache_has (key digits f) m \<Longrightarrow>
   begin_request digits m b =
     Respond (res_json (JObj [(js ''explanation'', cache_get (key digits f) m),
                              (js ''cached'', JBool True)])) []"
  by (simp add: begin_request_def)

lemma begin_miss:
  "destructure b = Inr f \<Longrightarrow> \<not> invalid_sql (sql f) \<Longrightarrow> \<not> cache_has (key digits f) m \<Longrightarrow>
   userPrompt digits f = Inr u \<Longrightarrow>
   begin_request digits m b =
     Await (key digits f) \<lparr>system_content = systemPrompt, user_content = u\<rparr>"
  by (simp add: begin_request_def)

lemma begin_AwaitD:
  "begin_request digits m b = Await k call \<Longrightarrow>
   \<exists>f u. destructure b = Inr f \<and> \<not> invalid_sql (sql f) \<and> k = key digits f \<and>
         \<not> cache_has k m \<and> userPrompt digits f = Inr u \<and>
         call = \<lparr>system_content = systemPrompt, user_content = u\<rparr>"
  by (auto simp: begin_request_def Let_def split: sum.splits if_splits)

lemma js_eq_Nil [simp]: "js s = [] \<longleftrightarrow> s = []"
  by (simp add: js_def)

lemma handle_Await:
  "begin_request digits m b = Await k call \<Longrightarrow>
   handle_request digits upstream m b = resume_request k call (upstream call) m"
  by (simp add: handle_request_def)

lemma handle_Respond:
  "begin_request digits m b = Respond r l \<Longrightarrow>
   handle_request digits upstream m b =
     \<lparr>reply = r, cache_after = m, upstream_calls = [], logged = l\<rparr>"
  by (simp add: handle_request_def)

lemma upstream_calls_resume: "upstream_calls (resume_request k call r m) = [call]"
  by (simp add: resume_request_def split: sum.splits)

lemma upstream_calls_handle:
  assumes "call \<in> set (upstream_calls (handle_request digits upstream m b))"
  shows "\<exists>k. begin_request digits m b = Await k call"
proof (cases "begin_request digits m b")
  case (Respond r l)
  with assms show ?thesis by (simp add: handle_Respond)
next
  case (Await k c)
  with assms show ?thesis by (simp add: handle_Await upstream_calls_resume)
qed

lemma begin_hit_value:
  assumes "destructure b = Inr f" and "\<not> invalid_sql (sql f)"
    and "map_of m (key digits f) = Some v"
  shows "begin_request digits m b =
           Respond \<lparr>status = 200,
                    body = JObj [(js ''explanation'', v), (js ''cached'', JBool True)]\<rparr> []"
  using assms by (simp add: begin_request_def cache_has_def cache_get_def res_json_def)

subsection \<open>The example requests\<close>

lemma destructure_select_one: "destructure select_one = Inr select_one_fields"
  by (simp add: select_one_def select_one_fields_def destructure_object js_def)

lemma destructure_select_one_described:
  "destructure select_one_described = Inr select_one_described_fields"
  by (simp add: select_one_described_def select_one_described_fields_def destructure_object js_def)

lemma destructure_empty_sql: "destructure empty_sql = Inr empty_sql_fields"
  by (simp add: empty_sql_def empty_sql_fields_def destructure_object js_def)

lemma key_select_one: "key digits select_one_fields = select_one_key"
  by (simp add: select_one_fields_def key_def stringify_object_def json_quote_def js_def
      quote_unit_def is_lead_def is_trail_def select_one_key_def)

lemma valid_select_one: "\<not> invalid_sql (sql select_one_fields)"
  by (simp add: select_one_fields_def invalid_sql_def)

lemma userPrompt_select_one: "userPrompt digits select_one_fields = Inr select_one_prompt"
  by (simp add: select_one_fields_def userPrompt_def description_text_def or_else_def
      prompt_template_def select_one_prompt_def js_def)

lemma begin_select_one:
  "\<not> cache_has select_one_key m \<Longrightarrow>
   begin_request digits m select_one = Await select_one_key select_one_call"
  using begin_miss [OF destructure_select_one valid_select_one, of digits m select_one_prompt]
  by (simp add: key_select_one userPrompt_select_one select_one_call_def)

lemma explanation_answer:
  "explanation (JObj [(js ''choices'',
      JArr [JObj [(js ''message'', JObj [(js ''content'', select_one_answer)])]])])
     = Inr select_one_answer"
  by (simp add: explanation_def message_content_def opt_named_def opt_first_def or_else_def
      select_one_answer_def js_def)

section \<open>The properties\<close>

text \<open>
  C3. Two requests that agree on \<^verbatim>\<open>sql\<close>, \<^verbatim>\<open>challengeId\<close>, \<^verbatim>\<open>title\<close> and
  \<^verbatim>\<open>gradeStatus\<close> have the same cache key, whatever their \<^verbatim>\<open>description\<close> fields
  are; when that key is in the cache, the handler treats the two requests alike.
\<close>

theorem key_ignores_description:
  assumes "destructure b1 = Inr f1" and "destructure b2 = Inr f2"
    and "sql f1 = sql f2" and "challengeId f1 = challengeId f2"
    and "title f1 = title f2" and "gradeStatus f1 = gradeStatus f2"
  shows "key digits f1 = key digits f2 \<and>
         (cache_has (key digits f1) m \<longrightarrow> begin_request digits m b1 = begin_request digits m b2)"
proof -
  have k: "key digits f1 = key digits f2"
    using assms(3-6) by (simp add: key_def)
  moreover have "begin_request digits m b1 = begin_request digits m b2"
    if "cache_has (key digits f1) m"
    using that assms k by (simp add: begin_request_def)
  ultimately show ?thesis by blast
qed

theorem key_ignores_description_witness:
  "destructure select_one = Inr select_one_fields \<and>
   destructure select_one_described = Inr select_one_described_fields \<and>
   description select_one_fields \<noteq> description select_one_described_fields \<and>
   key no_digits select_one_fields = key no_digits select_one_described_fields \<and>
   cache_has select_one_key [(select_one_key, select_one_answer)] \<and>
   begin_request no_digits [(select_one_key, select_one_answer)] select_one =
   begin_request no_digits [(select_one_key, select_one_answer)] select_one_described"
proof -
  have h: "cache_has (key no_digits select_one_fields) [(select_one_key, select_one_answer)]"
    by (simp add: key_select_one cache_has_def)
  have "sql select_one_fields = sql select_one_described_fields"
    and "challengeId select_one_fields = challengeId select_one_described_fields"
    and "title select_one_fields = title select_one_described_fields"
    and "gradeStatus select_one_fields = gradeStatus select_one_described_fields"
    and d: "description select_one_fields \<noteq> description select_one_described_fields"
    by (simp_all add: select_one_fields_def select_one_described_fields_def)
  from key_ignores_description [OF destructure_select_one destructure_select_one_described this(1-4),
      of no_digits "[(select_one_key, select_one_answer)]"] h d
  show ?thesis
    by (simp add: destructure_select_one destructure_select_one_described key_select_one)
qed

text \<open>
  C10. A request whose body is missing or is not an object (\<^verbatim>\<open>undefined\<close>, \<^verbatim>\<open>null\<close>,
  a boolean, a number, a string, an array) raises nothing in the handler: it is answered
  with the 400 validation error, exactly as the empty object is, the cache is left as it
  was, the service is not called and nothing is logged. A missing or otherwise falsy body
  is replaced by the empty object; the other bodies have none of the five properties.
\<close>

theorem non_object_body_rejected:
  assumes "\<not> is_object req_body"
  shows "handle_request digits upstream m req_body =
           \<lparr>reply = validation_error, cache_after = m, upstream_calls = [], logged = []\<rparr> \<and>
         handle_request digits upstream m req_body = handle_request digits upstream m (JObj []) \<and>
         (\<not> truthy req_body \<longrightarrow> or_else req_body (JObj []) = JObj [])"
proof -
  have "invalid_sql JUndefined"
    by (simp add: invalid_sql_def)
  then have "handle_request digits upstream m req_body =
      \<lparr>reply = validation_error, cache_after = m, upstream_calls = [], logged = []\<rparr>"
    using destructure_not_object [OF assms] by (simp add: handle_invalid)
  moreover have "handle_request digits upstream m (JObj []) =
      \<lparr>reply = validation_error, cache_after = m, upstream_calls = [], logged = []\<rparr>"
    by (rule handle_invalid [OF destructure_object]) (simp add: invalid_sql_def)
  ultimately show ?thesis by (simp add: or_else_def)
qed

theorem non_object_body_rejected_witness:
  "\<not> is_object JUndefined \<and>
   handle_request no_digits answering_service (filler 3) JUndefined =
     \<lparr>reply = validation_error, cache_after = filler 3, upstream_calls = [], logged = []\<rparr> \<and>
   \<not> is_object (JArr [JStr (js ''SELECT 1'')]) \<and>
   reply (handle_request no_digits answering_service (filler 3) (JArr [JStr (js ''SELECT 1'')])) =
     validation_error"
  using non_object_body_rejected [of JUndefined no_digits answering_service "filler 3"]
    non_object_body_rejected [of "JArr [JStr (js ''SELECT 1'')]" no_digits answering_service "filler 3"]
  by simp

text \<open>
  C4, as stated, fails: the request \<^verbatim>\<open>{ "sql": "" }\<close> has an \<^verbatim>\<open>sql\<close> field that is
  present and is a string, and it is rejected with the validation error.
\<close>

theorem validation_counterexample:
  "destructure empty_sql = Inr empty_sql_fields \<and>
   is_string (sql empty_sql_fields) \<and>
   reply (handle_request no_digits answering_service cache_new empty_sql) = validation_error"
  using handle_invalid [OF destructure_empty_sql, of no_digits answering_service cache_new]
  by (simp add: destructure_empty_sql invalid_sql_def empty_sql_fields_def)

text \<open>
  C4, amended. The handler answers 400 if and only if the \<^verbatim>\<open>sql\<close> field is absent, is
  not a string, or is the empty string. In that case the reply is the validation error,
  the cache is not touched, the service is not called and nothing is logged. For every
  other request validation passes: the handler derives the key and looks it up.
\<close>

theorem validation_fails_iff:
  assumes "destructure req_body = Inr f"
  shows "(status (reply (handle_request digits upstream m req_body)) = 400
            \<longleftrightarrow> (\<not> is_string (sql f) \<or> sql f = JStr [])) \<and>
         (\<not> is_string (sql f) \<or> sql f = JStr [] \<longrightarrow>
            handle_request digits upstream m req_body =
              \<lparr>reply = validation_error, cache_after = m, upstream_calls = [], logged = []\<rparr>) \<and>
         (is_string (sql f) \<and> sql f \<noteq> JStr [] \<longrightarrow>
            begin_request digits m req_body =
              (if cache_has (key digits f) m
               then Respond (res_json (JObj [(js ''explanation'', cache_get (key digits f) m),
                                             (js ''cached'', JBool True)])) []
               else case userPrompt digits f of
                      Inl e \<Rightarrow> Respond failure_error [e]
                    | Inr u \<Rightarrow> Await (key digits f)
                                \<lparr>system_content = systemPrompt, user_content = u\<rparr>))"
proof (cases "invalid_sql (sql f)")
  case True
  then show ?thesis
    using handle_invalid [OF assms True, of digits upstream m]
    by (auto simp: invalid_sql_iff)
next
  case False
  then show ?thesis
    using handle_valid_status [OF assms False, of digits upstream m] assms
    by (simp add: invalid_sql_iff begin_request_def)
qed

theorem validation_fails_iff_witness:
  "destructure empty_sql = Inr empty_sql_fields \<and>
   sql empty_sql_fields = JStr [] \<and>
   handle_request no_digits answering_service (filler 3) empty_sql =
     \<lparr>reply = validation_error, cache_after = filler 3, upstream_calls = [], logged = []\<rparr> \<and>
   destructure select_one = Inr select_one_fields \<and>
   is_string (sql select_one_fields) \<and> sql select_one_fields \<noteq> JStr [] \<and>
   status (reply (handle_request no_digits answering_service (filler 3) select_one)) \<noteq> 400"
  using validation_fails_iff [OF destructure_empty_sql, of no_digits answering_service "filler 3"]
    validation_fails_iff [OF destructure_select_one, of no_digits answering_service "filler 3"]
  by (simp add: destructure_empty_sql destructure_select_one select_one_fields_def
      empty_sql_fields_def)

subsection \<open>The cache and its bound\<close>

lemma map_of_cache_set: "map_of (cache_set k v m) = (map_of m)(k \<mapsto> v)"
  by (induction m) (auto simp: fun_eq_iff)

lemma cache_get_set: "cache_get k (cache_set k v m) = v"
  by (simp add: cache_get_def map_of_cache_set)

lemma cache_has_set: "cache_has k (cache_set k v m)"
  by (simp add: cache_has_def map_of_cache_set)

lemma cache_has_iff: "cache_has k m \<longleftrightarrow> k \<in> fst ` set m"
  by (simp add: cache_has_def map_of_eq_None_iff)

lemma cache_set_new: "\<not> cache_has k m \<Longrightarrow> cache_set k v m = m @ [(k, v)]"
  by (induction m) (auto simp: cache_has_iff)

lemma cache_size_set:
  "cache_size (cache_set k v m) = (if cache_has k m then cache_size m else Suc (cache_size m))"
  by (induction m) (force simp: cache_size_def cache_has_iff)+

lemma cache_put_eq:
  "cache_put k v m = (if cache_size (cache_set k v m) > 1000 then [] else cache_set k v m)"
  by (simp add: cache_put_def cache_clear_def Let_def)

lemma put_all_snoc: "put_all (kvs @ [(k, v)]) m = cache_put k v (put_all kvs m)"
  by (simp add: put_all_def)

lemma put_all_distinct:
  "distinct (map fst kvs) \<Longrightarrow> length kvs \<le> 1000 \<Longrightarrow> put_all kvs cache_new = kvs"
proof (induction kvs rule: rev_induct)
  case Nil
  show ?case by (simp add: put_all_def cache_new_def)
next
  case (snoc kv kvs)
  obtain k v where kv: "kv = (k, v)" by (cases kv)
  from snoc have IH: "put_all kvs cache_new = kvs" by simp
  from snoc(2) kv have new: "\<not> cache_has k kvs"
    by (auto simp: cache_has_iff)
  from snoc(3) have "cache_size (kvs @ [(k, v)]) \<le> 1000"
    by (simp add: cache_size_def)
  then show ?case
    by (simp add: kv put_all_snoc IH cache_put_eq cache_set_new [OF new])
qed

text \<open>
  C1. Writing 1001 entries with distinct keys into the empty cache: after the first 1000
  writes all 1000 entries are there, none was removed; the 1001st write makes the count
  exceed 1000 and the cache is cleared as a whole, so that right after that write its
  size is 0. The order is: insert first, then clear; the newest entry goes with the rest.
  On any cache, a write whose insertion makes the count exceed 1000 leaves the cache
  empty, every other write is the insertion alone, and no write leaves more than 1000
  entries.
\<close>

theorem overflow_clears_all:
  assumes "distinct (map fst kvs)" and "length kvs = 1001"
  shows "put_all (butlast kvs) cache_new = butlast kvs \<and>
         cache_size (put_all (butlast kvs) cache_new) = 1000 \<and>
         put_all kvs cache_new = [] \<and>
         cache_size (put_all kvs cache_new) = 0 \<and>
         (\<forall>k v m. cache_size (cache_put k v m) \<le> 1000 \<and>
            (1000 < cache_size (cache_set k v m) \<longrightarrow> cache_put k v m = []) \<and>
            (cache_size (cache_set k v m) \<le> 1000 \<longrightarrow> cache_put k v m = cache_set k v m))"
proof -
  have every: "\<forall>k v m. cache_size (cache_put k v m) \<le> 1000 \<and>
            (1000 < cache_size (cache_set k v m) \<longrightarrow> cache_put k v m = []) \<and>
            (cache_size (cache_set k v m) \<le> 1000 \<longrightarrow> cache_put k v m = cache_set k v m)"
    by (simp add: cache_put_eq cache_size_def)
  from assms(2) have ne: "kvs \<noteq> []" by auto
  then have split: "kvs = butlast kvs @ [last kvs]" by simp
  obtain k v where kv: "last kvs = (k, v)" by (cases "last kvs")
  have d: "distinct (map fst (butlast kvs))"
    using assms(1) by (simp add: distinct_butlast map_butlast)
  have l: "length (butlast kvs) = 1000"
    using assms(2) by simp
  have first: "put_all (butlast kvs) cache_new = butlast kvs"
    using d l by (simp add: put_all_distinct)
  have "k \<notin> fst ` set (butlast kvs)"
  proof -
    have "distinct (map fst (butlast kvs @ [(k, v)]))"
      using assms(1) split kv by simp
    then show ?thesis by auto
  qed
  then have new: "\<not> cache_has k (butlast kvs)"
    by (simp add: cache_has_iff)
  have "put_all kvs cache_new = cache_put k v (butlast kvs)"
    using split kv first put_all_snoc [of "butlast kvs" k v cache_new] by simp
  also have "\<dots> = []"
    using l by (simp add: cache_put_eq cache_set_new [OF new] cache_size_def)
  finally have last: "put_all kvs cache_new = []" .
  from first last l have "put_all (butlast kvs) cache_new = butlast kvs \<and>
         cache_size (put_all (butlast kvs) cache_new) = 1000 \<and>
         put_all kvs cache_new = [] \<and>
         cache_size (put_all kvs cache_new) = 0"
    by (simp add: cache_size_def)
  with every show ?thesis by blast
qed

lemma filler_key_inj: "filler_key i = filler_key j \<Longrightarrow> i = j"
proof -
  assume "filler_key i = filler_key j"
  then have "length (filler_key i) = length (filler_key j)" by simp
  then show "i = j" by (simp add: filler_key_def)
qed

lemma distinct_filler: "distinct (map fst (filler n))"
proof -
  have "inj_on filler_key (set [0..<n])"
    by (rule inj_onI) (rule filler_key_inj)
  then show ?thesis
    by (simp add: filler_def comp_def distinct_map)
qed

lemma length_filler [simp]: "length (filler n) = n"
  by (simp add: filler_def)

lemma cache_size_filler [simp]: "cache_size (filler n) = n"
  by (simp add: cache_size_def)

lemma filler_Suc: "filler (Suc n) = filler n @ [(filler_key n, select_one_answer)]"
  by (simp add: filler_def)

lemma filler_miss_own: "\<not> cache_has (filler_key n) (filler n)"
  by (auto simp: cache_has_iff filler_def dest: filler_key_inj)

theorem overflow_clears_all_witness:
  "distinct (map fst (filler 1001)) \<and> length (filler 1001) = 1001 \<and>
   cache_size (put_all (butlast (filler 1001)) cache_new) = 1000 \<and>
   cache_size (put_all (filler 1001) cache_new) = 0"
  using overflow_clears_all [of "filler 1001"]
  by (simp add: distinct_filler cache_size_def)

lemma filler_key_not_select_one: "filler_key i \<noteq> select_one_key"
  by (simp add: filler_key_def select_one_key_def js_def)

lemma filler_miss_select_one: "\<not> cache_has select_one_key (filler n)"
proof
  assume "cache_has select_one_key (filler n)"
  then obtain i where "select_one_key = filler_key i"
    by (auto simp: cache_has_iff filler_def)
  with filler_key_not_select_one [of i] show False by simp
qed

lemma cache_put_full:
  "cache_size m = 1000 \<Longrightarrow> \<not> cache_has k m \<Longrightarrow> cache_put k v m = []"
  by (simp add: cache_put_eq cache_size_set)

lemma cache_put_room:
  "cache_size m < 1000 \<or> cache_size m = 1000 \<and> cache_has k m \<Longrightarrow>
   cache_put k v m = cache_set k v m"
  by (auto simp: cache_put_eq cache_size_set)

subsection \<open>The filler cache is what real requests leave\<close>

lemma quote_units_Cons:
  "\<not> is_lead c \<Longrightarrow> quote_units (c # cs) = quote_unit c @ quote_units cs"
  by (cases cs) simp_all

lemma quote_units_a: "quote_units (replicate n 0x61) = replicate n 0x61"
  by (induction n) (simp_all add: quote_units_Cons is_lead_def is_trail_def quote_unit_def)

lemma destructure_filler_body:
  "destructure (filler_body i) =
     Inr \<lparr>sql = JStr (replicate (Suc i) 0x61), challengeId = JUndefined, title = JUndefined,
          description = JUndefined, gradeStatus = JUndefined\<rparr>"
  by (simp add: filler_body_def destructure_object js_def)

lemma key_filler_body:
  "key digits \<lparr>sql = JStr (replicate (Suc i) 0x61), challengeId = JUndefined,
      title = JUndefined, description = JUndefined, gradeStatus = JUndefined\<rparr> = filler_key i"
proof -
  have "json_quote (replicate (Suc i) 0x61) = 0x22 # replicate (Suc i) 0x61 @ [0x22]"
    by (simp only: json_quote_def quote_units_a)
  moreover have "json_quote (js ''sql'') = js ([CHR 0x22] @ ''sql'' @ [CHR 0x22])"
    by (simp add: json_quote_def js_def quote_unit_def is_lead_def is_trail_def)
  ultimately show ?thesis
    by (simp add: key_def stringify_object_def filler_key_def) (simp add: js_def)
qed

lemma serve_filler_body:
  assumes "n < 1000"
  shows "cache_after (handle_request digits answering_service (filler n) (filler_body n)) =
         filler (Suc n)"
proof -
  let ?f = "\<lparr>sql = JStr (replicate (Suc n) 0x61), challengeId = JUndefined,
      title = JUndefined, description = JUndefined, gradeStatus = JUndefined\<rparr>"
  have v: "\<not> invalid_sql (sql ?f)"
    by (simp add: invalid_sql_def)
  have m: "\<not> cache_has (key digits ?f) (filler n)"
    by (simp only: key_filler_body filler_miss_own not_False_eq_True)
  have u: "userPrompt digits ?f =
      Inr (prompt_template (replicate (Suc n) 0x61) (js ''unknown'') (js ''N/A'') [] (js ''N/A''))"
    by (simp add: userPrompt_def description_text_def or_else_def)
  from begin_miss [OF destructure_filler_body v m u]
  have "handle_request digits answering_service (filler n) (filler_body n) =
      resume_request (filler_key n)
        \<lparr>system_content = systemPrompt,
         user_content = prompt_template (replicate (Suc n) 0x61) (js ''unknown'') (js ''N/A'') []
                          (js ''N/A'')\<rparr>
        (answering_service
          \<lparr>system_content = systemPrompt,
           user_content = prompt_template (replicate (Suc n) 0x61) (js ''unknown'') (js ''N/A'') []
                            (js ''N/A'')\<rparr>)
        (filler n)"
    by (simp only: key_filler_body handle_Await)
  moreover have "cache_put (filler_key n) select_one_answer (filler n) = filler (Suc n)"
    using assms
    by (simp add: cache_put_room cache_set_new [OF filler_miss_own] filler_Suc)
  ultimately show ?thesis
    by (simp add: resume_request_def answering_service_def explanation_answer)
qed

lemma serve_all_snoc:
  "serve_all digits upstream (bodies @ [b]) m =
     cache_after (handle_request digits upstream (serve_all digits upstream bodies m) b)"
  by (simp add: serve_all_def)

lemma filler_reachable:
  "n \<le> 1000 \<Longrightarrow>
   serve_all digits answering_service (map filler_body [0..<n]) cache_new = filler n"
proof (induction n)
  case 0
  show ?case by (simp add: serve_all_def filler_def cache_new_def)
next
  case (Suc n)
  then have "serve_all digits answering_service (map filler_body [0..<n]) cache_new = filler n"
    and "n < 1000"
    by simp_all
  then show ?case
    by (simp add: serve_all_snoc serve_filler_body)
qed

text \<open>
  C5, as stated, fails: on the cache that 1000 different requests leave behind, writing a
  new key makes the count 1001, the cache is cleared, and the lookup that follows finds
  nothing.
\<close>

theorem put_then_get_counterexample:
  "serve_all no_digits answering_service (map filler_body [0..<1000]) cache_new = filler 1000 \<and>
   cache_size (filler 1000) = 1000 \<and>
   cache_get select_one_key (cache_put select_one_key select_one_answer (filler 1000))
     \<noteq> select_one_answer"
  by (simp add: filler_reachable cache_put_full filler_miss_select_one cache_get_def
      select_one_answer_def)

text \<open>
  C5, amended. \<^verbatim>\<open>Map.prototype.set\<close> followed by \<^verbatim>\<open>get\<close> returns the value. The write
  of the handler, which ends with the bound check, followed by \<^verbatim>\<open>get\<close> returns the
  value on every cache of at most 1000 entries, except when the cache holds exactly 1000
  entries and the key is new: then the cache is cleared and \<^verbatim>\<open>get\<close> finds nothing.
\<close>

theorem put_then_get:
  assumes "cache_size m \<le> 1000"
  shows "cache_get k (cache_set k v m) = v \<and>
         cache_get k (cache_put k v m) =
           (if cache_size m = 1000 \<and> \<not> cache_has k m then JUndefined else v)"
proof (cases "cache_size m = 1000 \<and> \<not> cache_has k m")
  case True
  then show ?thesis
    by (simp add: cache_put_full cache_get_set) (simp add: cache_get_def)
next
  case False
  with assms have "cache_size m < 1000 \<or> cache_size m = 1000 \<and> cache_has k m"
    by auto
  then have "cache_put k v m = cache_set k v m"
    by (rule cache_put_room)
  with False show ?thesis
    by (auto simp: cache_get_set)
qed

theorem put_then_get_witness:
  "cache_size (filler 3) \<le> 1000 \<and>
   cache_get select_one_key (cache_put select_one_key select_one_answer (filler 3)) =
     select_one_answer \<and>
   cache_size (filler 1000) \<le> 1000 \<and>
   cache_get select_one_key (cache_put select_one_key select_one_answer (filler 1000)) =
     JUndefined"
  using put_then_get [of "filler 3" select_one_key select_one_answer]
    put_then_get [of "filler 1000" select_one_key select_one_answer]
  by (simp add: filler_miss_select_one)

subsection \<open>The description in the prompt\<close>

lemma description_text_string: "description_text digits (JStr d) = Inr (take 500 d)"
  by (cases "d = []") (simp_all add: description_text_def or_else_def)

lemma description_text_falsy: "\<not> truthy v \<Longrightarrow> description_text digits v = Inr []"
  by (simp add: description_text_def or_else_def)

lemma userPrompt_InrD:
  "userPrompt digits f = Inr u \<Longrightarrow>
   \<exists>s i t d g.
     to_string digits (sql f) = Inr s \<and>
     to_string digits (or_else (challengeId f) (JStr (js ''unknown''))) = Inr i \<and>
     to_string digits (or_else (title f) (JStr (js ''N/A''))) = Inr t \<and>
     description_text digits (description f) = Inr d \<and>
     to_string digits (or_else (gradeStatus f) (JStr (js ''N/A''))) = Inr g \<and>
     u = prompt_template s i t d g"
  by (auto simp: userPrompt_def then_exn_def split: sum.splits)

lemma destructure_array_description:
  "destructure array_description = Inr array_description_fields"
  by (simp add: array_description_def array_description_fields_def destructure_object js_def)

lemma destructure_long_description:
  "destructure long_description = Inr long_description_fields"
  by (simp add: long_description_def long_description_fields_def destructure_object js_def)

lemma key_array_description: "key digits array_description_fields = bare_key"
  by (simp add: array_description_fields_def key_def stringify_object_def json_quote_def js_def
      quote_unit_def is_lead_def is_trail_def bare_key_def)

lemma userPrompt_array_description:
  "userPrompt digits array_description_fields =
     Inr (prompt_template (js ''SELECT 1'') (js ''unknown'') (js ''N/A'') long_text (js ''N/A''))"
  by (simp add: array_description_fields_def userPrompt_def description_text_def or_else_def
      long_text_def)

lemma userPrompt_long_description:
  "userPrompt digits long_description_fields =
     Inr (prompt_template (js ''SELECT 1'') (js ''unknown'') (js ''N/A'') (replicate 500 0x78)
            (js ''N/A''))"
  by (simp add: long_description_fields_def userPrompt_def description_text_def or_else_def
      long_text_def)

text \<open>
  C8, as stated, fails: with the description \<^verbatim>\<open>["xxx...x"]\<close>, an array that holds one
  string of 501 code units, \<^verbatim>\<open>slice(0, 500)\<close> is the array's own and keeps its one
  element, and the prompt sent to the service shows all 501 code units.
\<close>

theorem description_bound_counterexample:
  "begin_request no_digits cache_new array_description =
     Await bare_key
       \<lparr>system_content = systemPrompt,
        user_content = prompt_template (js ''SELECT 1'') (js ''unknown'') (js ''N/A'') long_text
                         (js ''N/A'')\<rparr> \<and>
   description_text no_digits (description array_description_fields) = Inr long_text \<and>
   length long_text = 501"
proof -
  have v: "\<not> invalid_sql (sql array_description_fields)"
    by (simp add: array_description_fields_def invalid_sql_def)
  have m: "\<not> cache_has (key no_digits array_description_fields) cache_new"
    by (simp add: cache_has_def cache_new_def)
  have "description_text no_digits (description array_description_fields) = Inr long_text"
    by (simp add: array_description_fields_def description_text_def or_else_def long_text_def)
  then show ?thesis
    using begin_miss [OF destructure_array_description v m userPrompt_array_description]
    by (simp add: key_array_description long_text_def)
qed

text \<open>
  C8, amended. When the description is a string, the text shown in the prompt is its
  first 500 UTF-16 code units, at most 500 of them; when it is absent or otherwise falsy
  (\<^verbatim>\<open>undefined\<close>, \<^verbatim>\<open>null\<close>, \<^verbatim>\<open>false\<close>, zero, \<^verbatim>\<open>NaN\<close>, the empty string), the text
  shown is empty. Every prompt that is built, and the user message of every call the
  handler makes for such a request, is the template with that text in the description
  slot and the other four substitutions in theirs.
\<close>

theorem description_truncated:
  assumes "destructure req_body = Inr f"
    and "description f = JStr d \<or> \<not> truthy (description f) \<and> d = []"
  shows "description_text digits (description f) = Inr (take 500 d) \<and>
         length (take 500 d) \<le> 500 \<and>
         (\<forall>u. userPrompt digits f = Inr u \<longrightarrow>
            (\<exists>s i t g.
               to_string digits (sql f) = Inr s \<and>
               to_string digits (or_else (challengeId f) (JStr (js ''unknown''))) = Inr i \<and>
               to_string digits (or_else (title f) (JStr (js ''N/A''))) = Inr t \<and>
               to_string digits (or_else (gradeStatus f) (JStr (js ''N/A''))) = Inr g \<and>
               u = prompt_template s i t (take 500 d) g)) \<and>
         (\<forall>m upstream call.
            call \<in> set (upstream_calls (handle_request digits upstream m req_body)) \<longrightarrow>
            (\<exists>s i t g. user_content call = prompt_template s i t (take 500 d) g))"
proof -
  have dt: "description_text digits (description f) = Inr (take 500 d)"
    using assms(2) by (auto simp: description_text_string description_text_falsy)
  have up: "\<exists>s i t g.
               to_string digits (sql f) = Inr s \<and>
               to_string digits (or_else (challengeId f) (JStr (js ''unknown''))) = Inr i \<and>
               to_string digits (or_else (title f) (JStr (js ''N/A''))) = Inr t \<and>
               to_string digits (or_else (gradeStatus f) (JStr (js ''N/A''))) = Inr g \<and>
               u = prompt_template s i t (take 500 d) g"
    if "userPrompt digits f = Inr u" for u
    using userPrompt_InrD [OF that] dt by auto
  have hc: "\<exists>s i t g. user_content call = prompt_template s i t (take 500 d) g"
    if "call \<in> set (upstream_calls (handle_request digits upstream m req_body))"
    for m upstream call
  proof -
    from upstream_calls_handle [OF that] obtain k where
      "begin_request digits m req_body = Await k call" ..
    from begin_AwaitD [OF this] assms(1) obtain u where
      "userPrompt digits f = Inr u" "call = \<lparr>system_content = systemPrompt, user_content = u\<rparr>"
      by auto
    with up [of u] show ?thesis by auto
  qed
  from dt up hc show ?thesis by simp
qed

theorem description_truncated_witness:
  "destructure long_description = Inr long_description_fields \<and>
   description long_description_fields = JStr long_text \<and>
   length long_text = 501 \<and>
   description_text no_digits (description long_description_fields) = Inr (replicate 500 0x78) \<and>
   upstream_calls (handle_request no_digits answering_service (filler 3) long_description) =
     [\<lparr>system_content = systemPrompt,
       user_content = prompt_template (js ''SELECT 1'') (js ''unknown'') (js ''N/A'')
                        (replicate 500 0x78) (js ''N/A'')\<rparr>] \<and>
   destructure select_one = Inr select_one_fields \<and>
   \<not> truthy (description select_one_fields) \<and>
   description_text no_digits (description select_one_fields) = Inr []"
proof -
  have d: "description long_description_fields = JStr long_text"
    by (simp add: long_description_fields_def)
  have a: "\<not> truthy (description select_one_fields)"
    by (simp add: select_one_fields_def)
  have v: "\<not> invalid_sql (sql long_description_fields)"
    by (simp add: long_description_fields_def invalid_sql_def)
  have k: "key no_digits long_description_fields = bare_key"
    by (simp add: long_description_fields_def key_def stringify_object_def json_quote_def js_def
        quote_unit_def is_lead_def is_trail_def bare_key_def)
  have "bare_key \<noteq> filler_key i" for i
    by (simp add: bare_key_def filler_key_def js_def)
  then have m: "\<not> cache_has (key no_digits long_description_fields) (filler 3)"
    unfolding k by (auto simp: cache_has_iff filler_def)
  from begin_miss [OF destructure_long_description v m userPrompt_long_description]
  have c: "upstream_calls (handle_request no_digits answering_service (filler 3) long_description) =
     [\<lparr>system_content = systemPrompt,
       user_content = prompt_template (js ''SELECT 1'') (js ''unknown'') (js ''N/A'')
                        (replicate 500 0x78) (js ''N/A'')\<rparr>]"
    by (simp add: handle_Await upstream_calls_resume)
  from description_truncated [OF destructure_long_description, of long_text no_digits]
    description_truncated [OF destructure_select_one, of "[]" no_digits]
    d a c destructure_long_description destructure_select_one
  show ?thesis
    by (simp add: long_text_def)
qed

subsection \<open>A completion without content\<close>

lemma explanation_no_content:
  "message_content completion = Inr content \<Longrightarrow> \<not> truthy content \<Longrightarrow>
   explanation completion = Inr (JStr placeholder)"
  by (simp add: explanation_def or_else_def)

lemma message_content_no_choices:
  "message_content (JObj [(js ''choices'', JArr [])]) = Inr JUndefined"
  by (simp add: message_content_def opt_first_def opt_named_def)

lemma begin_cached:
  assumes "begin_request digits m req_body = Await k call" and "cache_has k m'"
  shows "begin_request digits m' req_body =
           Respond (res_json (JObj [(js ''explanation'', cache_get k m'),
                                    (js ''cached'', JBool True)])) []"
proof -
  from begin_AwaitD [OF assms(1)] obtain f where
    "destructure req_body = Inr f" "\<not> invalid_sql (sql f)" "k = key digits f"
    by blast
  with assms(2) show ?thesis
    by (simp add: begin_hit)
qed

text \<open>
  C9, as stated, fails: on the cache that 1000 different requests leave behind, a new
  request whose completion has no content is answered with the placeholder, but storing
  it makes the count 1001 and the cache is cleared; the same request sent again misses,
  calls the service again and is answered without \<^verbatim>\<open>cached: true\<close>.
\<close>

theorem placeholder_overflow_counterexample:
  "serve_all no_digits answering_service (map filler_body [0..<1000]) cache_new = filler 1000 \<and>
   silent_service select_one_call = Inr (JObj [(js ''choices'', JArr [])]) \<and>
   handle_request no_digits silent_service (filler 1000) select_one =
     \<lparr>reply = res_json (JObj [(js ''explanation'', JStr placeholder)]),
      cache_after = [], upstream_calls = [select_one_call], logged = []\<rparr> \<and>
   handle_request no_digits silent_service
       (cache_after (handle_request no_digits silent_service (filler 1000) select_one)) select_one =
     \<lparr>reply = res_json (JObj [(js ''explanation'', JStr placeholder)]),
      cache_after = [(select_one_key, JStr placeholder)],
      upstream_calls = [select_one_call], logged = []\<rparr>"
proof -
  have e: "explanation (JObj [(js ''choices'', JArr [])]) = Inr (JStr placeholder)"
    by (rule explanation_no_content [OF message_content_no_choices]) simp
  have b1: "begin_request no_digits (filler 1000) select_one = Await select_one_key select_one_call"
    by (rule begin_select_one [OF filler_miss_select_one])
  have b2: "begin_request no_digits [] select_one = Await select_one_key select_one_call"
    by (rule begin_select_one) (simp add: cache_has_def)
  have "handle_request no_digits silent_service (filler 1000) select_one =
     \<lparr>reply = res_json (JObj [(js ''explanation'', JStr placeholder)]),
      cache_after = [], upstream_calls = [select_one_call], logged = []\<rparr>"
    unfolding handle_Await [OF b1]
    by (simp add: resume_request_def silent_service_def e cache_put_full filler_miss_select_one)
  moreover have "handle_request no_digits silent_service [] select_one =
     \<lparr>reply = res_json (JObj [(js ''explanation'', JStr placeholder)]),
      cache_after = [(select_one_key, JStr placeholder)],
      upstream_calls = [select_one_call], logged = []\<rparr>"
    unfolding handle_Await [OF b2]
    by (simp add: resume_request_def silent_service_def e cache_put_eq cache_size_def)
  ultimately show ?thesis
    by (simp add: silent_service_def filler_reachable)
qed

text \<open>
  C9, amended. When the call succeeds and the completion has no content (the content
  read through the optional chain is falsy), the reply carries the placeholder and the
  placeholder is written under the request's key. If the cache held fewer than 1000
  entries, the same request sent next is answered with the placeholder and
  \<^verbatim>\<open>cached: true\<close>, without a call. If it held 1000, the write clears the cache.
\<close>

theorem placeholder_is_cached:
  assumes "begin_request digits m req_body = Await k call"
    and "upstream call = Inr completion"
    and "message_content completion = Inr content" and "\<not> truthy content"
  shows "handle_request digits upstream m req_body =
           \<lparr>reply = res_json (JObj [(js ''explanation'', JStr placeholder)]),
            cache_after = cache_put k (JStr placeholder) m,
            upstream_calls = [call], logged = []\<rparr> \<and>
         (cache_size m < 1000 \<longrightarrow>
            handle_request digits upstream (cache_put k (JStr placeholder) m) req_body =
              \<lparr>reply = res_json (JObj [(js ''explanation'', JStr placeholder),
                                       (js ''cached'', JBool True)]),
               cache_after = cache_put k (JStr placeholder) m,
               upstream_calls = [], logged = []\<rparr>) \<and>
         (cache_size m = 1000 \<longrightarrow> cache_put k (JStr placeholder) m = [])"
proof (intro conjI impI)
  assume "cache_size m = 1000"
  moreover from begin_AwaitD [OF assms(1)] have "\<not> cache_has k m"
    by blast
  ultimately show "cache_put k (JStr placeholder) m = []"
    by (rule cache_put_full)
next
  show "handle_request digits upstream m req_body =
           \<lparr>reply = res_json (JObj [(js ''explanation'', JStr placeholder)]),
            cache_after = cache_put k (JStr placeholder) m,
            upstream_calls = [call], logged = []\<rparr>"
    unfolding handle_Await [OF assms(1)]
    by (simp add: resume_request_def assms(2) explanation_no_content [OF assms(3,4)])
next
  assume "cache_size m < 1000"
  then have p: "cache_put k (JStr placeholder) m = cache_set k (JStr placeholder) m"
    by (simp add: cache_put_room)
  have "cache_has k (cache_put k (JStr placeholder) m)"
    by (simp add: p cache_has_set)
  from begin_cached [OF assms(1) this]
  show "handle_request digits upstream (cache_put k (JStr placeholder) m) req_body =
              \<lparr>reply = res_json (JObj [(js ''explanation'', JStr placeholder),
                                       (js ''cached'', JBool True)]),
               cache_after = cache_put k (JStr placeholder) m,
               upstream_calls = [], logged = []\<rparr>"
    by (simp add: handle_Respond p cache_get_set)
qed

theorem placeholder_is_cached_witness:
  "begin_request no_digits (filler 3) select_one = Await select_one_key select_one_call \<and>
   silent_service select_one_call = Inr (JObj [(js ''choices'', JArr [])]) \<and>
   message_content (JObj [(js ''choices'', JArr [])]) = Inr JUndefined \<and>
   \<not> truthy JUndefined \<and>
   cache_size (filler 3) < 1000 \<and>
   reply (handle_request no_digits silent_service (filler 3) select_one) =
     res_json (JObj [(js ''explanation'', JStr placeholder)]) \<and>
   handle_request no_digits silent_service
       (cache_put select_one_key (JStr placeholder) (filler 3)) select_one =
     \<lparr>reply = res_json (JObj [(js ''explanation'', JStr placeholder), (js ''cached'', JBool True)]),
      cache_after = cache_put select_one_key (JStr placeholder) (filler 3),
      upstream_calls = [], logged = []\<rparr>"
proof -
  have b: "begin_request no_digits (filler 3) select_one = Await select_one_key select_one_call"
    by (rule begin_select_one [OF filler_miss_select_one])
  have u: "silent_service select_one_call = Inr (JObj [(js ''choices'', JArr [])])"
    by (simp add: silent_service_def)
  have t: "\<not> truthy JUndefined" by simp
  from placeholder_is_cached [where upstream = silent_service, OF b u message_content_no_choices t]
    b u message_content_no_choices
  show ?thesis by simp
qed

subsection \<open>Hits, misses and failures\<close>

lemma map_of_mixed_cache: "map_of mixed_cache select_one_key = Some select_one_answer"
  using filler_key_not_select_one [of 0] by (simp add: mixed_cache_def)

text \<open>
  C2. A valid request whose key has an entry in the cache is answered with status 200,
  the text stored under that key and \<^verbatim>\<open>cached: true\<close>, without a call to the service and
  without a change of the cache. A request that missed the cache and is answered with
  success carries exactly the \<^verbatim>\<open>explanation\<close> field, with the explanation taken from
  the completion, and that explanation is written under the request's key. After such a
  miss on a cache of fewer than 1000 entries, the entry under the key is that explanation
  and the same request sent again is answered with it and \<^verbatim>\<open>cached: true\<close>, whatever
  the service would do.
\<close>

theorem cache_hit_skips_upstream:
  "(destructure req_body = Inr f \<and> \<not> invalid_sql (sql f) \<and>
    map_of m (key digits f) = Some v \<longrightarrow>
      handle_request digits upstream m req_body =
        \<lparr>reply = \<lparr>status = 200,
                   body = JObj [(js ''explanation'', v), (js ''cached'', JBool True)]\<rparr>,
         cache_after = m, upstream_calls = [], logged = []\<rparr>) \<and>
   (begin_request digits m req_body = Await k call \<and>
    status (reply (handle_request digits upstream m req_body)) = 200 \<longrightarrow>
      (\<exists>completion ex. upstream call = Inr completion \<and> explanation completion = Inr ex \<and>
         handle_request digits upstream m req_body =
           \<lparr>reply = \<lparr>status = 200, body = JObj [(js ''explanation'', ex)]\<rparr>,
            cache_after = cache_put k ex m, upstream_calls = [call], logged = []\<rparr>)) \<and>
   (begin_request digits m req_body = Await k call \<and> upstream call = Inr completion \<and>
    explanation completion = Inr ex \<and> cache_size m < 1000 \<longrightarrow>
      map_of (cache_after (handle_request digits upstream m req_body)) k = Some ex \<and>
      handle_request digits upstream'
          (cache_after (handle_request digits upstream m req_body)) req_body =
        \<lparr>reply = \<lparr>status = 200,
                   body = JObj [(js ''explanation'', ex), (js ''cached'', JBool True)]\<rparr>,
         cache_after = cache_after (handle_request digits upstream m req_body),
         upstream_calls = [], logged = []\<rparr>)"
proof (intro conjI impI)
  assume "destructure req_body = Inr f \<and> \<not> invalid_sql (sql f) \<and>
    map_of m (key digits f) = Some v"
  then show "handle_request digits upstream m req_body =
        \<lparr>reply = \<lparr>status = 200,
                   body = JObj [(js ''explanation'', v), (js ''cached'', JBool True)]\<rparr>,
         cache_after = m, upstream_calls = [], logged = []\<rparr>"
    by (simp add: handle_Respond begin_hit_value)
next
  assume a: "begin_request digits m req_body = Await k call \<and>
    status (reply (handle_request digits upstream m req_body)) = 200"
  then have h: "handle_request digits upstream m req_body = resume_request k call (upstream call) m"
    by (simp add: handle_Await)
  with a have "status (reply (resume_request k call (upstream call) m)) = 200"
    by simp
  then obtain completion ex where "upstream call = Inr completion" "explanation completion = Inr ex"
    by (auto simp: resume_request_def split: sum.splits)
  then show "\<exists>completion ex. upstream call = Inr completion \<and> explanation completion = Inr ex \<and>
         handle_request digits upstream m req_body =
           \<lparr>reply = \<lparr>status = 200, body = JObj [(js ''explanation'', ex)]\<rparr>,
            cache_after = cache_put k ex m, upstream_calls = [call], logged = []\<rparr>"
    using h by (simp add: resume_request_def res_json_def)
next
  assume a: "begin_request digits m req_body = Await k call \<and> upstream call = Inr completion \<and>
    explanation completion = Inr ex \<and> cache_size m < 1000"
  then have h: "cache_after (handle_request digits upstream m req_body) = cache_set k ex m"
    by (simp add: handle_Await resume_request_def cache_put_room)
  show "map_of (cache_after (handle_request digits upstream m req_body)) k = Some ex"
    by (simp add: h map_of_cache_set)
  from begin_AwaitD a obtain f where
    f: "destructure req_body = Inr f" "\<not> invalid_sql (sql f)" "k = key digits f"
    by blast
  have "map_of (cache_set k ex m) (key digits f) = Some ex"
    by (simp add: f(3) map_of_cache_set)
  from begin_hit_value [OF f(1,2) this]
  show "handle_request digits upstream'
          (cache_after (handle_request digits upstream m req_body)) req_body =
        \<lparr>reply = \<lparr>status = 200,
                   body = JObj [(js ''explanation'', ex), (js ''cached'', JBool True)]\<rparr>,
         cache_after = cache_after (handle_request digits upstream m req_body),
         upstream_calls = [], logged = []\<rparr>"
    by (simp add: h handle_Respond)
qed

theorem cache_hit_skips_upstream_witness:
  "map_of mixed_cache select_one_key = Some select_one_answer \<and>
   handle_request no_digits failing_service mixed_cache select_one =
     \<lparr>reply = \<lparr>status = 200,
                body = JObj [(js ''explanation'', select_one_answer), (js ''cached'', JBool True)]\<rparr>,
      cache_after = mixed_cache, upstream_calls = [], logged = []\<rparr> \<and>
   handle_request no_digits answering_service (filler 3) select_one =
     \<lparr>reply = \<lparr>status = 200, body = JObj [(js ''explanation'', select_one_answer)]\<rparr>,
      cache_after = filler 3 @ [(select_one_key, select_one_answer)],
      upstream_calls = [select_one_call], logged = []\<rparr> \<and>
   handle_request no_digits failing_service
       (filler 3 @ [(select_one_key, select_one_answer)]) select_one =
     \<lparr>reply = \<lparr>status = 200,
                body = JObj [(js ''explanation'', select_one_answer), (js ''cached'', JBool True)]\<rparr>,
      cache_after = filler 3 @ [(select_one_key, select_one_answer)],
      upstream_calls = [], logged = []\<rparr>"
proof -
  have b: "begin_request no_digits (filler 3) select_one = Await select_one_key select_one_call"
    by (rule begin_select_one [OF filler_miss_select_one])
  have u: "answering_service select_one_call =
      Inr (JObj [(js ''choices'',
        JArr [JObj [(js ''message'', JObj [(js ''content'', select_one_answer)])]])])"
    by (simp add: answering_service_def)
  have p: "cache_put select_one_key select_one_answer (filler 3) =
      filler 3 @ [(select_one_key, select_one_answer)]"
    by (simp add: cache_put_room cache_set_new [OF filler_miss_select_one])
  have first: "handle_request no_digits answering_service (filler 3) select_one =
     \<lparr>reply = \<lparr>status = 200, body = JObj [(js ''explanation'', select_one_answer)]\<rparr>,
      cache_after = filler 3 @ [(select_one_key, select_one_answer)],
      upstream_calls = [select_one_call], logged = []\<rparr>"
    unfolding handle_Await [OF b]
    by (simp add: resume_request_def u explanation_answer p res_json_def)
  have hit: "handle_request no_digits failing_service mixed_cache select_one =
     \<lparr>reply = \<lparr>status = 200,
                body = JObj [(js ''explanation'', select_one_answer), (js ''cached'', JBool True)]\<rparr>,
      cache_after = mixed_cache, upstream_calls = [], logged = []\<rparr>"
    by (rule cache_hit_skips_upstream [where req_body = select_one and f = select_one_fields
          and digits = no_digits and m = mixed_cache and v = select_one_answer
          and upstream = failing_service and k = select_one_key and call = select_one_call
          and upstream' = failing_service and completion = JNull and ex = JNull,
          THEN conjunct1, THEN mp])
       (simp add: destructure_select_one valid_select_one key_select_one map_of_mixed_cache)
  have "handle_request no_digits failing_service
          (cache_after (handle_request no_digits answering_service (filler 3) select_one))
          select_one =
     \<lparr>reply = \<lparr>status = 200,
                body = JObj [(js ''explanation'', select_one_answer), (js ''cached'', JBool True)]\<rparr>,
      cache_after = cache_after (handle_request no_digits answering_service (filler 3) select_one),
      upstream_calls = [], logged = []\<rparr>"
    by (rule cache_hit_skips_upstream [where req_body = select_one and f = select_one_fields
          and digits = no_digits and m = "filler 3" and v = select_one_answer
          and upstream = answering_service and k = select_one_key and call = select_one_call
          and upstream' = failing_service
          and completion = "JObj [(js ''choices'',
            JArr [JObj [(js ''message'', JObj [(js ''content'', select_one_answer)])]])]"
          and ex = select_one_answer,
          THEN conjunct2, THEN conjunct2, THEN mp, THEN conjunct2])
       (simp add: b u explanation_answer)
  then have replay: "handle_request no_digits failing_service
       (filler 3 @ [(select_one_key, select_one_answer)]) select_one =
     \<lparr>reply = \<lparr>status = 200,
                body = JObj [(js ''explanation'', select_one_answer), (js ''cached'', JBool True)]\<rparr>,
      cache_after = filler 3 @ [(select_one_key, select_one_answer)],
      upstream_calls = [], logged = []\<rparr>"
    unfolding first by simp
  from map_of_mixed_cache hit first replay show ?thesis by blast
qed

text \<open>
  C7. When the handler's call of \<^verbatim>\<open>client.chat.completions.create\<close> is rejected, the
  reply has status 500 and the body \<^verbatim>\<open>{ error: "Failed to explain SQL." }\<close>, the same
  for every rejection; the rejection is only logged; the handler has made that one call
  and makes no other; and the cache is the one the request found, also when the handler
  is resumed on a cache that other requests changed in the meantime. The statement is
  about the handler's own call: whether the client library repeats its HTTP request
  within that call before it rejects is the client's configuration, which the handler
  leaves at its default, and is not part of the statement.
\<close>

theorem upstream_failure_leaves_cache:
  assumes "begin_request digits m req_body = Await k call"
    and "upstream call = Inl reason"
  shows "handle_request digits upstream m req_body =
           \<lparr>reply = \<lparr>status = 500,
                      body = JObj [(js ''error'', JStr (js ''Failed to explain SQL.''))]\<rparr>,
            cache_after = m, upstream_calls = [call], logged = [Rejected reason]\<rparr> \<and>
         (\<forall>m'. resume_request k call (Inl reason) m' =
           \<lparr>reply = \<lparr>status = 500,
                      body = JObj [(js ''error'', JStr (js ''Failed to explain SQL.''))]\<rparr>,
            cache_after = m', upstream_calls = [call], logged = [Rejected reason]\<rparr>)"
  using assms
  by (simp add: handle_Await resume_request_def failure_error_def res_status_json_def)

theorem upstream_failure_leaves_cache_witness:
  "begin_request no_digits (filler 3) select_one = Await select_one_key select_one_call \<and>
   failing_service select_one_call = Inl (JStr (js ''connect ECONNREFUSED'')) \<and>
   handle_request no_digits failing_service (filler 3) select_one =
     \<lparr>reply = \<lparr>status = 500,
                body = JObj [(js ''error'', JStr (js ''Failed to explain SQL.''))]\<rparr>,
      cache_after = filler 3, upstream_calls = [select_one_call],
      logged = [Rejected (JStr (js ''connect ECONNREFUSED''))]\<rparr>"
proof -
  have b: "begin_request no_digits (filler 3) select_one = Await select_one_key select_one_call"
    by (rule begin_select_one [OF filler_miss_select_one])
  have u: "failing_service select_one_call = Inl (JStr (js ''connect ECONNREFUSED''))"
    by (simp add: failing_service_def)
  from upstream_failure_leaves_cache [where upstream = failing_service, OF b u] b u
  show ?thesis by blast
qed

subsection \<open>Quoting loses nothing\<close>

lemma unat_small: "n < 65536 \<Longrightarrow> unat (word_of_nat n :: 16 word) = n"
  by (simp add: unat_of_nat)

lemma unhex_hex: "n < 16 \<Longrightarrow> unhex_digit (hex_digit n) = n"
  by (simp only: unhex_digit_def hex_digit_def unat_small split: if_split) simp

lemma unquote_escape_u:
  "unquote_units (0x5C # 0x75 # h1 # h2 # h3 # h4 # x) =
     cons_fst (word_of_nat (unhex_digit h1 * 4096 + unhex_digit h2 * 256 +
                            unhex_digit h3 * 16 + unhex_digit h4)) (unquote_units x)"
  by simp

lemma nibbles:
  "(n::nat) div 4096 mod 16 * 4096 + n div 256 mod 16 * 256 + n div 16 mod 16 * 16 + n mod 16
     = n mod 65536"
  using mod_mult2_eq [of n 16 16] mod_mult2_eq [of n 256 16] mod_mult2_eq [of n 4096 16]
  by simp

lemma unat_mod: "unat (c :: 16 word) mod 65536 = unat c"
proof -
  have "unat c < 2 ^ LENGTH(16)" by (rule unsigned_less)
  then show ?thesis by simp
qed

lemma unhex_escape:
  "unquote_units (unicode_escape c @ x) = cons_fst c (unquote_units x)"
proof -
  have "unquote_units (unicode_escape c @ x) = cons_fst (word_of_nat (unat c)) (unquote_units x)"
    by (simp only: unicode_escape_def Let_def append_Cons append_Nil unquote_escape_u unhex_hex
          mod_less_divisor zero_less_numeral nibbles unat_mod)
  then show ?thesis by simp
qed

lemma quote_unit_roundtrip:
  "unquote_units (quote_unit c @ x) = cons_fst c (unquote_units x)"
proof -
  consider "c = 0x08" | "c = 0x09" | "c = 0x0A" | "c = 0x0C" | "c = 0x0D" | "c = 0x22" | "c = 0x5C"
    | "c \<notin> {0x08, 0x09, 0x0A, 0x0C, 0x0D, 0x22, 0x5C}" "c < 0x20 \<or> is_lead c \<or> is_trail c"
    | "c \<notin> {0x08, 0x09, 0x0A, 0x0C, 0x0D, 0x22, 0x5C}" "\<not> (c < 0x20 \<or> is_lead c \<or> is_trail c)"
    by blast
  then show ?thesis
  proof cases
    case 8
    then have "quote_unit c = unicode_escape c"
      by (simp add: quote_unit_def)
    then show ?thesis by (simp only: unhex_escape)
  next
    case 9
    then have "quote_unit c = [c]"
      by (simp add: quote_unit_def)
    with 9 show ?thesis by simp
  qed (simp_all add: quote_unit_def unescape_def)
qed

lemma lead_not_special: "is_lead c \<Longrightarrow> c \<noteq> 0x22 \<and> c \<noteq> 0x5C"
  by (auto simp: is_lead_def)

lemma trail_not_special: "is_trail c \<Longrightarrow> c \<noteq> 0x22 \<and> c \<noteq> 0x5C"
  by (auto simp: is_trail_def)

lemma unquote_raw:
  "c \<noteq> 0x22 \<Longrightarrow> c \<noteq> 0x5C \<Longrightarrow> unquote_units (c # x) = cons_fst c (unquote_units x)"
  by simp

lemma unquote_quote_units: "unquote_units (quote_units s @ 0x22 # r) = (s, r)"
proof (induction s rule: quote_units.induct)
  case 1
  show ?case by simp
next
  case (2 c)
  show ?case by (simp add: quote_unit_roundtrip cons_fst_def)
next
  case (3 c d cs)
  show ?case
  proof (cases "is_lead c \<and> is_trail d")
    case True
    then have "quote_units (c # d # cs) @ 0x22 # r = c # d # (quote_units cs @ 0x22 # r)"
      by simp
    moreover from True have nc: "c \<noteq> 0x22" "c \<noteq> 0x5C" "d \<noteq> 0x22" "d \<noteq> 0x5C"
      using lead_not_special trail_not_special by blast+
    have "unquote_units (c # d # (quote_units cs @ 0x22 # r)) =
        cons_fst c (cons_fst d (unquote_units (quote_units cs @ 0x22 # r)))"
      by (simp only: unquote_raw [OF nc(1) nc(2)] unquote_raw [OF nc(3) nc(4)])
    ultimately show ?thesis
      using 3(1) [OF True] by (simp only: cons_fst_def fst_conv snd_conv)
  next
    case False
    then have "quote_units (c # d # cs) @ 0x22 # r = quote_unit c @ (quote_units (d # cs) @ 0x22 # r)"
      by auto
    with 3(2) [OF False] show ?thesis
      by (simp only: quote_unit_roundtrip cons_fst_def fst_conv snd_conv)
  qed
qed

lemma json_quote_prefix:
  assumes "json_quote s @ r = json_quote s' @ r'"
  shows "s = s' \<and> r = r'"
proof -
  from assms have "quote_units s @ 0x22 # r = quote_units s' @ 0x22 # r'"
    by (simp add: json_quote_def)
  then have "unquote_units (quote_units s @ 0x22 # r) = unquote_units (quote_units s' @ 0x22 # r')"
    by simp
  then show ?thesis
    by (simp add: unquote_quote_units)
qed

subsection \<open>Sign and magnitude of a number\<close>

lemma magnitude_eq: "x AND 0x7FFFFFFFFFFFFFFF = take_bit 63 (x :: 64 word)"
  by (simp add: take_bit_eq_mask mask_eq_exp_minus_1)

lemma negative_iff: "is_negative x \<longleftrightarrow> bit x 63"
proof -
  have "(0x8000000000000000 :: 64 word) = push_bit 63 1" by simp
  then show ?thesis
    unfolding is_negative_def by (simp only: bit_iff_and_push_bit_not_eq_0)
qed

lemma sign_and_magnitude:
  assumes "is_negative x \<longleftrightarrow> is_negative y"
    and "x AND 0x7FFFFFFFFFFFFFFF = y AND 0x7FFFFFFFFFFFFFFF"
  shows "x = y"
proof (rule bit_word_eqI)
  fix n assume "n < LENGTH(64)"
  then have n: "n < 64" by simp
  show "bit x n \<longleftrightarrow> bit y n"
  proof (cases "n = 63")
    case True
    with assms(1) show ?thesis by (simp add: negative_iff)
  next
    case False
    with n have "n < 63" by simp
    moreover from assms(2) have "bit (take_bit 63 x) n \<longleftrightarrow> bit (take_bit 63 y) n"
      by (simp add: magnitude_eq)
    ultimately show ?thesis by (simp add: bit_take_bit_iff)
  qed
qed

lemma magnitude_idem:
  "(x AND 0x7FFFFFFFFFFFFFFF) AND 0x7FFFFFFFFFFFFFFF = x AND (0x7FFFFFFFFFFFFFFF :: 64 word)"
  by (simp add: and.assoc)

lemma magnitude_not_negative: "\<not> is_negative (x AND 0x7FFFFFFFFFFFFFFF)"
  by (simp add: negative_iff magnitude_eq bit_take_bit_iff)

lemma exponent_eq: "exponent_bits x = take_bit 11 (drop_bit 52 x)"
  by (simp add: exponent_bits_def take_bit_eq_mask mask_eq_exp_minus_1)

lemma magnitude_exponent: "exponent_bits (x AND 0x7FFFFFFFFFFFFFFF) = exponent_bits x"
  unfolding exponent_eq magnitude_eq
  by (rule bit_word_eqI) (auto simp: bit_take_bit_iff bit_drop_bit_eq)

lemma magnitude_fraction: "fraction_bits (x AND 0x7FFFFFFFFFFFFFFF) = fraction_bits x"
  by (simp add: fraction_bits_def and.assoc)

lemma magnitude_finite_positive:
  "\<not> is_nan x \<Longrightarrow> \<not> is_infinite x \<Longrightarrow> \<not> is_zero x \<Longrightarrow>
   finite_positive (x AND 0x7FFFFFFFFFFFFFFF)"
  by (simp add: finite_positive_def is_nan_def is_infinite_def is_zero_def magnitude_exponent
      magnitude_fraction magnitude_not_negative magnitude_idem)

lemma positive_magnitude: "\<not> is_negative x \<Longrightarrow> x AND 0x7FFFFFFFFFFFFFFF = x"
  by (rule sign_and_magnitude) (simp_all add: magnitude_not_negative magnitude_idem)

lemma positive_zero: "is_zero x \<Longrightarrow> \<not> is_negative x \<Longrightarrow> x = 0"
  using positive_magnitude [of x] by (simp add: is_zero_def)

subsection \<open>The text of a number\<close>

lemma number_text_zero:
  "is_zero x \<Longrightarrow> \<not> is_nan x \<Longrightarrow> number_to_string digits x = js ''0''"
  by (simp add: number_to_string_def)

lemma number_text_nonzero:
  "\<not> is_nan x \<Longrightarrow> \<not> is_infinite x \<Longrightarrow> \<not> is_zero x \<Longrightarrow>
   number_to_string digits x =
     (if is_negative x then 0x2D # digits (x AND 0x7FFFFFFFFFFFFFFF)
      else digits (x AND 0x7FFFFFFFFFFFFFFF))"
  by (simp add: number_to_string_def js_def)

lemma digit_not_minus: "digit_unit c \<Longrightarrow> c \<noteq> 0x2D"
  by (auto simp: digit_unit_def)

lemma number_text_units:
  assumes "readable_digits digits" and "printable (JNum x)"
  shows "number_to_string digits x \<noteq> [] \<and> list_all number_unit (number_to_string digits x)"
proof (cases "is_zero x")
  case True
  with assms(2) show ?thesis
    by (simp add: number_text_zero js_def number_unit_def digit_unit_def)
next
  case False
  with assms(2) have fp: "finite_positive (x AND 0x7FFFFFFFFFFFFFFF)"
    by (simp add: magnitude_finite_positive)
  with assms(1) have "digits (x AND 0x7FFFFFFFFFFFFFFF) \<noteq> []"
    and "list_all number_unit (digits (x AND 0x7FFFFFFFFFFFFFFF))"
    by (simp_all add: readable_digits_def)
  with False assms(2) show ?thesis
    by (simp add: number_text_nonzero number_unit_def)
qed

lemma number_text_inj:
  assumes rd: "readable_digits digits"
    and px: "printable (JNum x)" and py: "printable (JNum y)"
    and eq: "number_to_string digits x = number_to_string digits y"
  shows "x = y"
proof -
  let ?M = "0x7FFFFFFFFFFFFFFF :: 64 word"
  have nz: "number_to_string digits z \<noteq> js ''0''"
    if "printable (JNum z)" and "\<not> is_zero z" for z
  proof -
    from that have fp: "finite_positive (z AND ?M)"
      by (simp add: magnitude_finite_positive)
    with rd have "digits (z AND ?M) \<noteq> js ''0''" and "digits (z AND ?M) \<noteq> []"
      by (simp_all add: readable_digits_def)
    with that show ?thesis
      by (auto simp: number_text_nonzero js_def)
  qed
  show ?thesis
  proof (cases "is_zero x")
    case True
    with px have tx: "number_to_string digits x = js ''0''" and x0: "x = 0"
      by (simp_all add: number_text_zero positive_zero)
    have "is_zero y"
      using nz [OF py] eq tx by auto
    with py have "y = 0" by (simp add: positive_zero)
    with x0 show ?thesis by simp
  next
    case False
    have ynz: "\<not> is_zero y"
    proof
      assume "is_zero y"
      with py have "number_to_string digits y = js ''0''"
        by (simp add: number_text_zero)
      with nz [OF px False] eq show False by simp
    qed
    from px False have fx: "finite_positive (x AND ?M)"
      by (simp add: magnitude_finite_positive)
    from py ynz have fy: "finite_positive (y AND ?M)"
      by (simp add: magnitude_finite_positive)
    from rd fx have hx: "digits (x AND ?M) \<noteq> []" "digit_unit (hd (digits (x AND ?M)))"
      by (simp_all add: readable_digits_def)
    from rd fy have hy: "digits (y AND ?M) \<noteq> []" "digit_unit (hd (digits (y AND ?M)))"
      by (simp_all add: readable_digits_def)
    from hx obtain cx tx where cx: "digits (x AND ?M) = cx # tx" "cx \<noteq> 0x2D"
      by (cases "digits (x AND ?M)") (auto dest: digit_not_minus)
    from hy obtain cy ty where cy: "digits (y AND ?M) = cy # ty" "cy \<noteq> 0x2D"
      by (cases "digits (y AND ?M)") (auto dest: digit_not_minus)
    from eq px py False ynz
    have e: "(if is_negative x then 0x2D # digits (x AND ?M) else digits (x AND ?M)) =
             (if is_negative y then 0x2D # digits (y AND ?M) else digits (y AND ?M))"
      by (simp add: number_text_nonzero)
    have sign: "is_negative x \<longleftrightarrow> is_negative y"
      using e cx cy by (auto split: if_splits)
    with e have "digits (x AND ?M) = digits (y AND ?M)"
      by (auto split: if_splits)
    with rd fx fy have "x AND ?M = y AND ?M"
      unfolding readable_digits_def by blast
    with sign show ?thesis by (rule sign_and_magnitude)
  qed
qed

lemma delimited_span:
  assumes "list_all number_unit a" and "list_all number_unit b"
    and "delimited r" and "delimited r'" and "a @ r = b @ r'"
  shows "a = b \<and> r = r'"
proof -
  have t: "takeWhile number_unit (c @ q) = c" if "list_all number_unit c" and "delimited q" for c q
  proof -
    from that(2) have "takeWhile number_unit q = []"
      by (cases q) (auto simp: delimited_def)
    with that(1) show ?thesis
      by (simp add: takeWhile_append2 list_all_iff)
  qed
  from assms(5) have "takeWhile number_unit (a @ r) = takeWhile number_unit (b @ r')"
    by simp
  with t [OF assms(1,3)] t [OF assms(2,4)] have "a = b" by simp
  with assms(5) show ?thesis by simp
qed

subsection \<open>The text of a printable value\<close>

lemma join_with_Cons: "join_with sep (s # ts) = s @ concat (map ((@) sep) ts)"
  by (induction ts arbitrary: s) simp_all

lemma printed_json:
  "printable v \<Longrightarrow> json_property digits v = Some (printed digits v)"
  "list_all printable xs \<Longrightarrow> json_elements digits xs = map (printed digits) xs"
  "list_all (\<lambda>kv. printable (snd kv)) kvs \<Longrightarrow>
     json_members digits kvs =
       map (\<lambda>kv. json_quote (fst kv) @ js '':'' @ printed digits (snd kv)) kvs"
  by (induction digits v and digits xs and digits kvs
      rule: json_property_json_elements_json_members.induct) simp_all

lemma printed_head_number:
  assumes "readable_digits digits" and "printable (JNum x)"
  shows "\<exists>c t. printed digits (JNum x) = c # t \<and> number_unit c"
proof -
  from number_text_units [OF assms]
  show ?thesis by (cases "number_to_string digits x") simp_all
qed

lemma printed_head_other:
  "printable v \<Longrightarrow> \<not> is_number v \<Longrightarrow> \<exists>t. printed digits v = first_unit v # t"
  by (cases v) (simp_all add: js_def json_quote_def)

lemma first_unit_not_number:
  "printable v \<Longrightarrow> \<not> is_number v \<Longrightarrow> \<not> number_unit (first_unit v)"
  by (cases v) (simp_all add: number_unit_def digit_unit_def)

lemma same_kind:
  assumes rd: "readable_digits digits"
    and pv: "printable v" and pv': "printable v'"
    and eq: "printed digits v @ r = printed digits v' @ r'"
  shows "(is_number v \<longleftrightarrow> is_number v') \<and> (\<not> is_number v \<longrightarrow> first_unit v = first_unit v')"
proof (cases "is_number v")
  case True
  then obtain x where v: "v = JNum x" by (cases v) simp_all
  from printed_head_number [OF rd] pv v obtain c t where
    c: "printed digits v = c # t" "number_unit c" by blast
  show ?thesis
  proof (cases "is_number v'")
    case True
    with \<open>is_number v\<close> show ?thesis by simp
  next
    case False
    from printed_head_other [OF pv' False] obtain t' where
      "printed digits v' = first_unit v' # t'" ..
    with eq c have "c = first_unit v'" by simp
    with c(2) first_unit_not_number [OF pv' False] show ?thesis by simp
  qed
next
  case False
  from printed_head_other [OF pv False] obtain t where
    t: "printed digits v = first_unit v # t" ..
  show ?thesis
  proof (cases "is_number v'")
    case True
    then obtain y where v': "v' = JNum y" by (cases v') simp_all
    from printed_head_number [OF rd] pv' v' obtain c t' where
      c: "printed digits v' = c # t'" "number_unit c" by blast
    with eq t have "c = first_unit v" by simp
    with c(2) first_unit_not_number [OF pv False] show ?thesis by simp
  next
    case F: False
    from printed_head_other [OF pv' F] obtain t' where
      "printed digits v' = first_unit v' # t'" ..
    with eq t False F show ?thesis by simp
  qed
qed

lemma comma_delimited: "delimited (0x2C # r)"
  by (simp add: delimited_def number_unit_def digit_unit_def)

lemma bracket_delimited: "delimited (0x5D # r)"
  by (simp add: delimited_def number_unit_def digit_unit_def)

lemma brace_delimited: "delimited (0x7D # r)"
  by (simp add: delimited_def number_unit_def digit_unit_def)

lemma elements_rest_delimited:
  "delimited (concat (map (\<lambda>x. 0x2C # f x) xs) @ 0x5D # r)"
  by (cases xs) (simp_all add: comma_delimited bracket_delimited)

lemma members_rest_delimited:
  "delimited (concat (map (\<lambda>kv. 0x2C # f kv) kvs) @ 0x7D # r)"
  by (cases kvs) (simp_all add: comma_delimited brace_delimited)

lemma elements_prefix:
  assumes "\<And>x v' q q'. x \<in> set xs \<Longrightarrow> printable v' \<Longrightarrow> delimited q \<Longrightarrow> delimited q' \<Longrightarrow>
              printed digits x @ q = printed digits v' @ q' \<Longrightarrow> x = v' \<and> q = q'"
    and "list_all printable xs'"
    and "concat (map (\<lambda>x. 0x2C # printed digits x) xs) @ 0x5D # r =
         concat (map (\<lambda>x. 0x2C # printed digits x) xs') @ 0x5D # r'"
  shows "xs = xs' \<and> r = r'"
  using assms
proof (induction xs arbitrary: xs')
  case Nil
  then show ?case by (cases xs') simp_all
next
  case (Cons x xs)
  show ?case
  proof (cases xs')
    case Nil
    with Cons.prems(3) show ?thesis by simp
  next
    case (Cons x' ys)
    with Cons.prems(2) have px: "printable x'" and pys: "list_all printable ys"
      by simp_all
    let ?rest = "\<lambda>zs q. concat (map (\<lambda>x. 0x2C # printed digits x) zs) @ 0x5D # q"
    from Cons.prems(3) Cons
    have eq: "printed digits x @ ?rest xs r = printed digits x' @ ?rest ys r'"
      by simp
    from Cons.prems(1) [OF _ px elements_rest_delimited elements_rest_delimited eq]
    have hd: "x = x'" and tl: "?rest xs r = ?rest ys r'"
      by simp_all
    have "xs = ys \<and> r = r'"
      by (rule Cons.IH [OF _ pys tl]) (rule Cons.prems(1), simp_all)
    with hd Cons show ?thesis by simp
  qed
qed

lemma members_prefix:
  assumes "\<And>kv v' q q'. kv \<in> set kvs \<Longrightarrow> printable v' \<Longrightarrow> delimited q \<Longrightarrow> delimited q' \<Longrightarrow>
              printed digits (snd kv) @ q = printed digits v' @ q' \<Longrightarrow> snd kv = v' \<and> q = q'"
    and "list_all (\<lambda>kv. printable (snd kv)) kvs'"
    and "concat (map (\<lambda>kv. 0x2C # json_quote (fst kv) @ 0x3A # printed digits (snd kv)) kvs) @ 0x7D # r =
         concat (map (\<lambda>kv. 0x2C # json_quote (fst kv) @ 0x3A # printed digits (snd kv)) kvs') @ 0x7D # r'"
  shows "kvs = kvs' \<and> r = r'"
  using assms
proof (induction kvs arbitrary: kvs')
  case Nil
  then show ?case by (cases kvs') simp_all
next
  case (Cons kv kvs)
  show ?case
  proof (cases kvs')
    case Nil
    with Cons.prems(3) show ?thesis by simp
  next
    case (Cons kv' ys)
    with Cons.prems(2) have px: "printable (snd kv')"
      and pys: "list_all (\<lambda>kv. printable (snd kv)) ys"
      by simp_all
    let ?rest = "\<lambda>zs q. concat (map (\<lambda>kv. 0x2C # json_quote (fst kv) @ 0x3A # printed digits (snd kv)) zs) @ 0x7D # q"
    from Cons.prems(3) Cons
    have "json_quote (fst kv) @ (0x3A # printed digits (snd kv) @ ?rest kvs r) =
          json_quote (fst kv') @ (0x3A # printed digits (snd kv') @ ?rest ys r')"
      by simp
    from json_quote_prefix [OF this]
    have k: "fst kv = fst kv'"
      and eq: "printed digits (snd kv) @ ?rest kvs r = printed digits (snd kv') @ ?rest ys r'"
      by simp_all
    from Cons.prems(1) [OF _ px members_rest_delimited members_rest_delimited eq]
    have v: "snd kv = snd kv'" and tl: "?rest kvs r = ?rest ys r'"
      by simp_all
    have "kvs = ys \<and> r = r'"
      by (rule Cons.IH [OF _ pys tl]) (rule Cons.prems(1), simp_all)
    with k v Cons show ?thesis by (simp add: prod_eq_iff)
  qed
qed

lemma array_text_Nil: "printed digits (JArr []) @ r = 0x5B # 0x5D # r"
  by (simp add: js_def)

lemma array_text_Cons:
  "printed digits (JArr (x # xs)) @ r =
     0x5B # printed digits x @ (concat (map (\<lambda>x. 0x2C # printed digits x) xs) @ 0x5D # r)"
  by (simp add: js_def join_with_Cons comp_def)

lemma object_text_Nil: "printed digits (JObj []) @ r = 0x7B # 0x7D # r"
  by (simp add: js_def)

lemma object_text_Cons:
  "printed digits (JObj (kv # kvs)) @ r =
     0x7B # json_quote (fst kv) @ (0x3A # printed digits (snd kv) @
       (concat (map (\<lambda>kv. 0x2C # json_quote (fst kv) @ 0x3A # printed digits (snd kv)) kvs) @
        0x7D # r))"
  by (simp add: js_def join_with_Cons comp_def)

lemma printed_not_bracket:
  assumes "readable_digits digits" and "printable v"
  shows "printed digits v @ r \<noteq> 0x5D # r'"
proof (cases "is_number v")
  case True
  then obtain x where "v = JNum x" by (cases v) simp_all
  with printed_head_number [OF assms(1)] assms(2) obtain c t where
    "printed digits v = c # t" "number_unit c" by blast
  moreover have "\<not> number_unit 0x5D"
    by (simp add: number_unit_def digit_unit_def)
  ultimately show ?thesis by auto
next
  case False
  from printed_head_other [OF assms(2) False] obtain t where
    "printed digits v = first_unit v # t" ..
  moreover have "first_unit v \<noteq> 0x5D"
    using assms(2) False by (cases v) simp_all
  ultimately show ?thesis by simp
qed

lemma json_quote_not_brace: "json_quote s @ r \<noteq> 0x7D # r'"
  by (simp add: json_quote_def)

lemma array_Nil_Cons:
  assumes "readable_digits digits" and "printable x"
  shows "printed digits (JArr []) @ r \<noteq> printed digits (JArr (x # xs)) @ r'"
proof
  assume "printed digits (JArr []) @ r = printed digits (JArr (x # xs)) @ r'"
  then have "printed digits x @ (concat (map (\<lambda>x. 0x2C # printed digits x) xs) @ 0x5D # r') = 0x5D # r"
    by (simp only: array_text_Nil array_text_Cons list.inject)
  with printed_not_bracket [OF assms] show False by blast
qed

lemma object_Nil_Cons:
  "printed digits (JObj []) @ r \<noteq> printed digits (JObj (kv # kvs)) @ r'"
proof
  assume "printed digits (JObj []) @ r = printed digits (JObj (kv # kvs)) @ r'"
  then have "json_quote (fst kv) @ (0x3A # printed digits (snd kv) @
       (concat (map (\<lambda>kv. 0x2C # json_quote (fst kv) @ 0x3A # printed digits (snd kv)) kvs) @
        0x7D # r'))
       = 0x7D # r"
    by (simp only: object_text_Nil object_text_Cons list.inject)
  with json_quote_not_brace show False by blast
qed

lemma printed_prefix:
  assumes rd: "readable_digits digits"
  shows "printable v \<Longrightarrow> printable v' \<Longrightarrow> delimited r \<Longrightarrow> delimited r' \<Longrightarrow>
         printed digits v @ r = printed digits v' @ r' \<Longrightarrow> v = v' \<and> r = r'"
proof (induction v arbitrary: v' r r')
  case JUndefined
  then show ?case by simp
next
  case JNull
  from same_kind [OF rd JNull(1,2,5)] JNull show ?case
    by (cases v') (simp_all split: if_splits)
next
  case (JBool b)
  from same_kind [OF rd JBool(1,2,5)] JBool show ?case
    by (cases v') (simp_all split: if_splits)
next
  case (JNum x)
  from same_kind [OF rd JNum(1,2,5)] obtain y where v': "v' = JNum y"
    by (cases v') simp_all
  from JNum(1) have ux: "list_all number_unit (number_to_string digits x)"
    using number_text_units [OF rd] by blast
  from JNum(2) v' have uy: "list_all number_unit (number_to_string digits y)"
    using number_text_units [OF rd] by blast
  from JNum(5) v' have "number_to_string digits x @ r = number_to_string digits y @ r'"
    by simp
  from delimited_span [OF ux uy JNum(3,4) this]
  have t: "number_to_string digits x = number_to_string digits y" and r: "r = r'"
    by simp_all
  from number_text_inj [OF rd JNum(1) _ t] JNum(2) v' have "x = y" by simp
  with v' r show ?case by simp
next
  case (JStr s)
  from same_kind [OF rd JStr(1,2,5)] JStr show ?case
    by (cases v') (auto split: if_splits dest: json_quote_prefix)
next
  case (JArr xs)
  from same_kind [OF rd JArr.prems(1,2,5)] obtain xs' where v': "v' = JArr xs'"
    by (cases v') (simp_all split: if_splits)
  with JArr.prems have pxs: "list_all printable xs" and pxs': "list_all printable xs'"
    by simp_all
  from JArr.prems(5) v' have eq: "printed digits (JArr xs) @ r = printed digits (JArr xs') @ r'"
    by simp
  have IH: "\<And>x w q q'. x \<in> set xs \<Longrightarrow> printable w \<Longrightarrow> delimited q \<Longrightarrow> delimited q' \<Longrightarrow>
      printed digits x @ q = printed digits w @ q' \<Longrightarrow> x = w \<and> q = q'"
    using JArr.IH pxs by (simp add: list_all_iff)
  show ?case
  proof (cases xs)
    case Nil
    show ?thesis
    proof (cases xs')
      case Nil
      with \<open>xs = []\<close> v' eq show ?thesis by (simp add: js_def)
    next
      case (Cons x' ys)
      with pxs' have "printable x'" by simp
      from array_Nil_Cons [OF rd this] eq \<open>xs = []\<close> Cons
      show ?thesis by blast
    qed
  next
    case (Cons x xs1)
    show ?thesis
    proof (cases xs')
      case Nil
      from Cons pxs have "printable x" by simp
      from array_Nil_Cons [OF rd this] eq Cons Nil
      show ?thesis by metis
    next
      case (Cons x' ys)
      with pxs' have px': "printable x'" and pys: "list_all printable ys" by simp_all
      let ?rest = "\<lambda>zs q. concat (map (\<lambda>x. 0x2C # printed digits x) zs) @ 0x5D # q"
      from eq \<open>xs = x # xs1\<close> Cons
      have e: "printed digits x @ ?rest xs1 r = printed digits x' @ ?rest ys r'"
        by (simp only: array_text_Cons list.inject)
      from IH [OF _ px' elements_rest_delimited elements_rest_delimited e] \<open>xs = x # xs1\<close>
      have hd: "x = x'" and tl: "?rest xs1 r = ?rest ys r'"
        by simp_all
      have "xs1 = ys \<and> r = r'"
        by (rule elements_prefix [OF _ pys tl]) (rule IH, simp_all add: \<open>xs = x # xs1\<close>)
      with hd v' \<open>xs = x # xs1\<close> Cons show ?thesis by simp
    qed
  qed
next
  case (JObj kvs)
  from same_kind [OF rd JObj.prems(1,2,5)] obtain kvs' where v': "v' = JObj kvs'"
    by (cases v') (simp_all split: if_splits)
  with JObj.prems have pkvs: "list_all (\<lambda>kv. printable (snd kv)) kvs"
    and pkvs': "list_all (\<lambda>kv. printable (snd kv)) kvs'"
    by simp_all
  from JObj.prems(5) v' have eq: "printed digits (JObj kvs) @ r = printed digits (JObj kvs') @ r'"
    by simp
  have IH: "\<And>kv w q q'. kv \<in> set kvs \<Longrightarrow> printable w \<Longrightarrow> delimited q \<Longrightarrow> delimited q' \<Longrightarrow>
      printed digits (snd kv) @ q = printed digits w @ q' \<Longrightarrow> snd kv = w \<and> q = q'"
  proof -
    fix kv w q q'
    assume a: "kv \<in> set kvs" "printable w" "delimited q" "delimited q'"
      "printed digits (snd kv) @ q = printed digits w @ q'"
    from a(1) pkvs have p: "printable (snd kv)" by (simp add: list_all_iff)
    have s: "snd kv \<in> Basic_BNFs.snds kv"
      by (cases kv) simp
    show "snd kv = w \<and> q = q'"
      by (rule JObj.IH [OF a(1) s p a(2) a(3) a(4) a(5)])
  qed
  show ?case
  proof (cases kvs)
    case Nil
    show ?thesis
    proof (cases kvs')
      case Nil
      with \<open>kvs = []\<close> v' eq show ?thesis by (simp add: js_def)
    next
      case (Cons kv' ys)
      from object_Nil_Cons eq \<open>kvs = []\<close> Cons
      show ?thesis by blast
    qed
  next
    case (Cons kv kvs1)
    show ?thesis
    proof (cases kvs')
      case Nil
      from object_Nil_Cons eq Cons Nil
      show ?thesis by metis
    next
      case (Cons kv' ys)
      with pkvs' have px': "printable (snd kv')"
        and pys: "list_all (\<lambda>kv. printable (snd kv)) ys"
        by simp_all
      let ?rest = "\<lambda>zs q. concat (map (\<lambda>kv. 0x2C # json_quote (fst kv) @ 0x3A # printed digits (snd kv)) zs) @ 0x7D # q"
      from eq \<open>kvs = kv # kvs1\<close> Cons
      have "json_quote (fst kv) @ (0x3A # printed digits (snd kv) @ ?rest kvs1 r) =
            json_quote (fst kv') @ (0x3A # printed digits (snd kv') @ ?rest ys r')"
        by (simp only: object_text_Cons list.inject)
      from json_quote_prefix [OF this]
      have k: "fst kv = fst kv'"
        and e: "printed digits (snd kv) @ ?rest kvs1 r = printed digits (snd kv') @ ?rest ys r'"
        by simp_all
      from IH [OF _ px' members_rest_delimited members_rest_delimited e] \<open>kvs = kv # kvs1\<close>
      have v: "snd kv = snd kv'" and tl: "?rest kvs1 r = ?rest ys r'"
        by simp_all
      have "kvs1 = ys \<and> r = r'"
        by (rule members_prefix [OF _ pys tl]) (rule IH, simp_all add: \<open>kvs = kv # kvs1\<close>)
      with k v v' \<open>kvs = kv # kvs1\<close> Cons show ?thesis by (simp add: prod_eq_iff)
    qed
  qed
qed

subsection \<open>The key of a request\<close>

lemma json_members_present:
  "list_all (\<lambda>kv. absent_or_printable (snd kv)) kvs \<Longrightarrow>
   json_members digits kvs =
     map (\<lambda>kv. json_quote (fst kv) @ js '':'' @ printed digits (snd kv)) (present kvs)"
proof (induction kvs)
  case Nil
  show ?case by (simp add: present_def)
next
  case (Cons kv kvs)
  obtain k v where kv: "kv = (k, v)" by (cases kv)
  from Cons have IH: "json_members digits kvs =
     map (\<lambda>kv. json_quote (fst kv) @ js '':'' @ printed digits (snd kv)) (present kvs)"
    by simp
  show ?case
  proof (cases "v = JUndefined")
    case True
    with IH kv show ?thesis by (simp add: present_def)
  next
    case False
    with Cons.prems kv have "printable v" by (simp add: absent_or_printable_def)
    with IH kv False show ?thesis by (simp add: present_def printed_json(1))
  qed
qed

lemma printable_present:
  "list_all (\<lambda>kv. absent_or_printable (snd kv)) kvs \<Longrightarrow> printable (JObj (present kvs))"
  by (induction kvs) (auto simp: present_def absent_or_printable_def)

lemma stringify_object_present:
  "list_all (\<lambda>kv. absent_or_printable (snd kv)) kvs \<Longrightarrow>
   stringify_object digits kvs = printed digits (JObj (present kvs))"
  by (simp add: stringify_object_def json_members_present)

lemma stringify_object_inj:
  assumes "readable_digits digits"
    and "list_all (\<lambda>kv. absent_or_printable (snd kv)) kvs"
    and "list_all (\<lambda>kv. absent_or_printable (snd kv)) kvs'"
    and "stringify_object digits kvs = stringify_object digits kvs'"
  shows "present kvs = present kvs'"
proof -
  from assms(2-4)
  have "printed digits (JObj (present kvs)) @ [] = printed digits (JObj (present kvs')) @ []"
    by (simp add: stringify_object_present)
  moreover have "delimited []"
    by (simp add: delimited_def)
  ultimately have "JObj (present kvs) = JObj (present kvs') \<and> ([] :: jsstring) = []"
    using printable_present [OF assms(2)] printable_present [OF assms(3)]
    by (intro printed_prefix [OF assms(1)])
  then show ?thesis by simp
qed

lemma present_subset: "fst ` set (present kvs) \<subseteq> fst ` set kvs"
  by (auto simp: present_def)

lemma present_inj:
  "map fst kvs = map fst kvs' \<Longrightarrow> distinct (map fst kvs) \<Longrightarrow>
   present kvs = present kvs' \<Longrightarrow> kvs = kvs'"
proof (induction kvs arbitrary: kvs')
  case Nil
  then show ?case by simp
next
  case (Cons kv kvs)
  from Cons.prems(1) obtain kv' ys where ys: "kvs' = kv' # ys"
    and k: "fst kv = fst kv'" and ks: "map fst kvs = map fst ys"
    by (cases kvs') auto
  from Cons.prems(2) have d: "distinct (map fst kvs)" and n: "fst kv \<notin> fst ` set kvs"
    by simp_all
  from n ks have n': "fst kv' \<notin> fst ` set ys"
    by (metis k set_map)
  from n present_subset [of kvs] have m: "fst kv \<notin> fst ` set (present kvs)" by blast
  from n' present_subset [of ys] have m': "fst kv' \<notin> fst ` set (present ys)" by blast
  have "snd kv = snd kv' \<and> present kvs = present ys"
  proof (cases "snd kv = JUndefined")
    case True
    show ?thesis
    proof (cases "snd kv' = JUndefined")
      case True
      with \<open>snd kv = JUndefined\<close> Cons.prems(3) ys show ?thesis
        by (simp add: present_def)
    next
      case False
      with True Cons.prems(3) ys have "present kvs = kv' # present ys"
        by (simp add: present_def)
      then have "fst kv' \<in> fst ` set (present kvs)"
        by simp
      with m k show ?thesis by simp
    qed
  next
    case False
    show ?thesis
    proof (cases "snd kv' = JUndefined")
      case True
      with False Cons.prems(3) ys have "kv # present kvs = present ys"
        by (simp add: present_def)
      then have "fst kv \<in> fst ` set (present ys)"
        by (metis image_eqI list.set_intros(1))
      with m' k show ?thesis by simp
    next
      case False
      with \<open>snd kv \<noteq> JUndefined\<close> Cons.prems(3) ys show ?thesis
        by (simp add: present_def)
    qed
  qed
  then have "snd kv = snd kv'" and "present kvs = present ys"
    by simp_all
  from Cons.IH [OF ks d this(2)] this(1) k ys show ?case
    by (simp add: prod_eq_iff)
qed

lemma key_names_distinct:
  "distinct [js ''sql'', js ''challengeId'', js ''title'', js ''gradeStatus'']"
  by (simp add: js_def)

lemma destructure_infinite_id: "destructure infinite_id = Inr infinite_id_fields"
  by (simp add: infinite_id_def infinite_id_fields_def destructure_object js_def)

lemma destructure_null_id: "destructure null_id = Inr null_id_fields"
  by (simp add: null_id_def null_id_fields_def destructure_object js_def)

lemma is_infinite_Infinity: "is_infinite Infinity"
  by (simp add: is_infinite_def Infinity_def exponent_bits_def fraction_bits_def)

lemma key_null_id: "key digits null_id_fields = null_id_key"
  by (simp add: null_id_fields_def key_def stringify_object_def json_quote_def js_def
      quote_unit_def is_lead_def is_trail_def null_id_key_def)

lemma key_infinite_id: "key digits infinite_id_fields = null_id_key"
  by (simp add: infinite_id_fields_def key_def stringify_object_def json_quote_def js_def
      quote_unit_def is_lead_def is_trail_def null_id_key_def is_infinite_Infinity)

lemma zero_text:
  "number_to_string digits 0 = js ''0''" "number_to_string digits negative_zero = js ''0''"
  by (simp_all add: number_to_string_def is_nan_def is_zero_def negative_zero_def
      exponent_bits_def fraction_bits_def)

lemma zero_finite:
  "\<not> is_nan 0" "\<not> is_infinite 0" "\<not> is_nan negative_zero" "\<not> is_infinite negative_zero"
  by (simp_all add: is_nan_def is_infinite_def negative_zero_def exponent_bits_def
      fraction_bits_def)

lemma key_zero_id:
  "key digits (numbered_fields 0) = zero_id_key"
  "key digits (numbered_fields negative_zero) = zero_id_key"
  by (simp_all add: numbered_fields_def key_def stringify_object_def zero_finite zero_text
      json_quote_def js_def quote_unit_def is_lead_def is_trail_def zero_id_key_def)

lemma zero_ids_differ:
  "challengeId (numbered_fields negative_zero) \<noteq> challengeId (numbered_fields 0)"
  by (simp add: numbered_fields_def negative_zero_def)

lemma infinite_null_ids_differ:
  "challengeId infinite_id_fields \<noteq> challengeId null_id_fields"
  by (simp add: infinite_id_fields_def null_id_fields_def)

text \<open>
  C6, as stated, fails: the requests \<^verbatim>\<open>{ "sql": "SELECT 1", "challengeId": 1e999 }\<close>
  and \<^verbatim>\<open>{ "sql": "SELECT 1", "challengeId": null }\<close> differ in \<^verbatim>\<open>challengeId\<close>
  (the number parses to \<^verbatim>\<open>Infinity\<close>), and \<^verbatim>\<open>JSON.stringify\<close> prints both as
  \<^verbatim>\<open>null\<close>: the two requests have the same key. So have the requests with the ids
  \<^verbatim>\<open>-0\<close> and \<^verbatim>\<open>0\<close>, which both print as \<^verbatim>\<open>0\<close>.
\<close>

theorem key_collision_counterexample:
  "destructure infinite_id = Inr infinite_id_fields \<and>
   destructure null_id = Inr null_id_fields \<and>
   challengeId infinite_id_fields \<noteq> challengeId null_id_fields \<and>
   key no_digits infinite_id_fields = key no_digits null_id_fields \<and>
   challengeId (numbered_fields negative_zero) \<noteq> challengeId (numbered_fields 0) \<and>
   key no_digits (numbered_fields negative_zero) = key no_digits (numbered_fields 0)"
  by (simp only: destructure_infinite_id destructure_null_id key_null_id key_infinite_id
      key_zero_id zero_ids_differ infinite_null_ids_differ simp_thms)

text \<open>
  C6, amended. On requests whose \<^verbatim>\<open>sql\<close>, \<^verbatim>\<open>challengeId\<close>, \<^verbatim>\<open>title\<close> and
  \<^verbatim>\<open>gradeStatus\<close> are each absent or a parsed value whose numbers are all finite and
  none of them the negative zero, two requests have the same key if and only if they
  agree on all four fields: a difference in any of them changes the key. This needs of
  the number printer what \<^verbatim>\<open>Number::toString\<close> guarantees, that different finite numbers
  have different texts. An absent field is left out of the key, and the names of the
  fields that are there keep it apart from every value.
\<close>

theorem key_injective_on_printable:
  assumes "readable_digits digits" and "printable_fields f" and "printable_fields g"
  shows "key digits f = key digits g \<longleftrightarrow>
         sql f = sql g \<and> challengeId f = challengeId g \<and> title f = title g \<and>
         gradeStatus f = gradeStatus g"
proof
  let ?F = "[(js ''sql'', sql f), (js ''challengeId'', challengeId f),
             (js ''title'', title f), (js ''gradeStatus'', gradeStatus f)]"
  let ?G = "[(js ''sql'', sql g), (js ''challengeId'', challengeId g),
             (js ''title'', title g), (js ''gradeStatus'', gradeStatus g)]"
  assume "key digits f = key digits g"
  then have eq: "stringify_object digits ?F = stringify_object digits ?G"
    by (simp add: key_def)
  have pf: "list_all (\<lambda>kv. absent_or_printable (snd kv)) ?F"
    using assms(2) by (simp add: printable_fields_def)
  have pg: "list_all (\<lambda>kv. absent_or_printable (snd kv)) ?G"
    using assms(3) by (simp add: printable_fields_def)
  have "?F = ?G"
  proof (rule present_inj)
    show "map fst ?F = map fst ?G" by simp
    show "distinct (map fst ?F)" using key_names_distinct by simp
    show "present ?F = present ?G" by (rule stringify_object_inj [OF assms(1) pf pg eq])
  qed
  then show "sql f = sql g \<and> challengeId f = challengeId g \<and> title f = title g \<and>
         gradeStatus f = gradeStatus g"
    by simp
next
  assume "sql f = sql g \<and> challengeId f = challengeId g \<and> title f = title g \<and>
         gradeStatus f = gradeStatus g"
  then show "key digits f = key digits g"
    by (simp add: key_def)
qed

lemma sample_digits_inj:
  assumes "sample_digits x = sample_digits y"
  shows "x = y"
proof -
  have l: "length (sample_digits z) = 2 + unat z" if "z \<noteq> forty_two" "z \<noteq> forty_three" for z
    using that by (simp add: sample_digits_def js_def)
  have h: "hd (sample_digits z) = 0x30" if "z \<noteq> forty_two" "z \<noteq> forty_three" for z
    using that by (simp add: sample_digits_def js_def)
  have t: "sample_digits forty_two = [0x34, 0x32]" "sample_digits forty_three = [0x34, 0x33]"
    by (simp_all add: sample_digits_def js_def forty_two_def forty_three_def)
  consider "x = forty_two" | "x = forty_three" | "x \<noteq> forty_two" "x \<noteq> forty_three"
    by blast
  then show ?thesis
  proof cases
    case 1
    show ?thesis
    proof (rule ccontr)
      assume n: "x \<noteq> y"
      show False
      proof (cases "y = forty_three")
        case True
        with 1 assms t show False by simp
      next
        case False
        with n 1 have "hd (sample_digits y) = 0x30" by (simp add: h)
        moreover from assms 1 t have "sample_digits y = [0x34, 0x32]" by simp
        ultimately show False by simp
      qed
    qed
  next
    case 2
    show ?thesis
    proof (rule ccontr)
      assume n: "x \<noteq> y"
      show False
      proof (cases "y = forty_two")
        case True
        with 2 assms t show False by simp
      next
        case False
        with n 2 have "hd (sample_digits y) = 0x30" by (simp add: h)
        moreover from assms 2 t have "sample_digits y = [0x34, 0x33]" by simp
        ultimately show False by simp
      qed
    qed
  next
    case 3
    then have hx: "hd (sample_digits x) = 0x30" by (simp add: h)
    have y: "y \<noteq> forty_two \<and> y \<noteq> forty_three"
      using hx assms t by auto
    with 3 assms have "2 + unat x = 2 + unat y"
      using l [of x] l [of y] by simp
    then show ?thesis by (simp add: word_unat_eq_iff)
  qed
qed

lemma readable_sample_digits: "readable_digits sample_digits"
  unfolding readable_digits_def
proof (intro conjI allI impI)
  fix x y
  assume "finite_positive x \<and> finite_positive y \<and> sample_digits x = sample_digits y"
  then show "x = y" by (simp add: sample_digits_inj)
next
  fix x show "sample_digits x \<noteq> []"
    by (simp add: sample_digits_def js_def)
next
  fix x show "digit_unit (hd (sample_digits x))"
    by (simp add: sample_digits_def js_def digit_unit_def)
next
  fix x show "list_all number_unit (sample_digits x)"
    by (simp add: sample_digits_def js_def number_unit_def digit_unit_def list_all_iff)
next
  fix x show "sample_digits x \<noteq> js ''0''"
    by (simp add: sample_digits_def js_def)
qed

lemma printable_ids:
  "printable_fields (numbered_fields forty_two)" "printable_fields (numbered_fields forty_three)"
  by (simp_all add: printable_fields_def absent_or_printable_def numbered_fields_def
      forty_two_def forty_three_def is_nan_def is_infinite_def is_zero_def exponent_bits_def
      fraction_bits_def)

lemma forty_two_text: "number_to_string sample_digits forty_two = js ''42''"
  by (simp add: number_to_string_def sample_digits_def forty_two_def is_nan_def is_zero_def
      is_negative_def is_infinite_def exponent_bits_def fraction_bits_def)

lemma forty_two_finite: "\<not> is_nan forty_two" "\<not> is_infinite forty_two"
  by (simp_all add: forty_two_def is_nan_def is_infinite_def exponent_bits_def fraction_bits_def)

lemma key_forty_two: "key sample_digits (numbered_fields forty_two) = forty_two_key"
  by (simp add: numbered_fields_def key_def stringify_object_def forty_two_finite forty_two_text
      json_quote_def js_def quote_unit_def is_lead_def is_trail_def forty_two_key_def)

theorem key_injective_on_printable_witness:
  "readable_digits sample_digits \<and>
   printable_fields (numbered_fields forty_two) \<and>
   printable_fields (numbered_fields forty_three) \<and>
   sql (numbered_fields forty_two) = sql (numbered_fields forty_three) \<and>
   challengeId (numbered_fields forty_two) \<noteq> challengeId (numbered_fields forty_three) \<and>
   key sample_digits (numbered_fields forty_two) = forty_two_key \<and>
   key sample_digits (numbered_fields forty_two) \<noteq> key sample_digits (numbered_fields forty_three)"
proof -
  have d: "challengeId (numbered_fields forty_two) \<noteq> challengeId (numbered_fields forty_three)"
    "sql (numbered_fields forty_two) = sql (numbered_fields forty_three)"
    by (simp_all add: numbered_fields_def forty_two_def forty_three_def)
  from key_injective_on_printable [OF readable_sample_digits printable_ids]
    readable_sample_digits printable_ids d key_forty_two
  show ?thesis by simp
qed

end
